theory Spec2Isabelle
  imports Main "HOL-Library.Multiset"
begin

section \<open>Strings of the host language\<close>

text \<open>
  The script (\<^verbatim>\<open>assets/app.js\<close>) works on JavaScript strings. They are modelled
  as \<^typ>\<open>string\<close>: a list of code units, each below 256 (the Latin-1 range), which is
  what a \<^typ>\<open>char\<close> holds. The built-in string methods the script calls are written
  out below for that range.
\<close>

text \<open>
  \<^verbatim>\<open>String.prototype.trim\<close> strips white space and line terminators from both
  ends. Below 256 these are TAB, LF, VT, FF, CR, SPACE and NO-BREAK SPACE.
\<close>

definition isWhiteSpace :: "char \<Rightarrow> bool" where
  "isWhiteSpace c \<longleftrightarrow>
     c \<in> set [CHR 0x09, CHR 0x0A, CHR 0x0B, CHR 0x0C, CHR 0x0D, CHR 0x20, CHR 0xA0]"

definition trim :: "string \<Rightarrow> string" where
  "trim s = rev (dropWhile isWhiteSpace (rev (dropWhile isWhiteSpace s)))"

text \<open>
  \<^verbatim>\<open>String.prototype.toLowerCase\<close>: below 256 the letters with a lower-case
  partner are A-Z, and U+00C0-U+00DE without the multiplication sign U+00D7; the partner
  is 32 above.
\<close>

definition lowerChar :: "char \<Rightarrow> char" where
  "lowerChar c =
     (let n = (of_char c :: nat)
      in if (65 \<le> n \<and> n \<le> 90) \<or> (192 \<le> n \<and> n \<le> 214) \<or> (216 \<le> n \<and> n \<le> 222)
         then char_of (n + 32) else c)"

definition toLowerCase :: "string \<Rightarrow> string" where
  "toLowerCase s = map lowerChar s"

text \<open>\<^verbatim>\<open>s.startsWith(pre)\<close> and \<^verbatim>\<open>s.endsWith(suf)\<close>.\<close>

definition startsWith :: "string \<Rightarrow> string \<Rightarrow> bool" where
  "startsWith s pre \<longleftrightarrow> take (length pre) s = pre"

definition endsWith :: "string \<Rightarrow> string \<Rightarrow> bool" where
  "endsWith s suf \<longleftrightarrow> length suf \<le> length s \<and> drop (length s - length suf) s = suf"

text \<open>\<^verbatim>\<open>hay.includes(q)\<close>: \<open>q\<close> occurs in \<open>hay\<close> as a contiguous run.\<close>

fun includesStr :: "string \<Rightarrow> string \<Rightarrow> bool" where
  "includesStr [] q \<longleftrightarrow> q = []"
| "includesStr (c # cs) q \<longleftrightarrow> startsWith (c # cs) q \<or> includesStr cs q"

text \<open>\<^verbatim>\<open>parts.join(sep)\<close> on an array of strings.\<close>

fun join :: "string \<Rightarrow> string list \<Rightarrow> string" where
  "join sep [] = []"
| "join sep [x] = x"
| "join sep (x # y # ys) = x @ sep @ join sep (y # ys)"

section \<open>Path resolver\<close>

text \<open>
  \<^verbatim>\<open>getSiteRoot\<close> reads \<^verbatim>\<open>meta[name="site-root"]\<close>. Its argument here is what the
  page provides: \<open>None\<close> when there is no such element, \<open>Some content\<close> otherwise
  (an element without the attribute has the content \<open>''''\<close>).
\<close>

definition getSiteRoot :: "string option \<Rightarrow> string" where
  "getSiteRoot meta =
     (let root = (case meta of
                    None \<Rightarrow> ''./''
                  | Some content \<Rightarrow> if content \<noteq> [] then trim content else ''./'');
          root = (if root = [] then ''./'' else root);
          root = (if \<not> endsWith root ''/'' then root @ ''/'' else root)
      in root)"

definition PLACEHOLDER_THUMB :: "string \<Rightarrow> string" where
  "PLACEHOLDER_THUMB SITE_ROOT = SITE_ROOT @ ''assets/thumbs/placeholder.svg''"

text \<open>
  \<^verbatim>\<open>isExternal\<close> tests \<^verbatim>\<open>/^https?:\/\//i\<close>. Under the \<^verbatim>\<open>i\<close> flag a character
  matches a pattern character when both have the same canonical (upper-case) form; for
  the pattern's letters that is the letter in either case.
\<close>

definition regexCanonicalize :: "char \<Rightarrow> char" where
  "regexCanonicalize c =
     (let n = (of_char c :: nat)
      in if 97 \<le> n \<and> n \<le> 122 then char_of (n - 32) else c)"

definition isExternal :: "string \<Rightarrow> bool" where
  "isExternal url \<longleftrightarrow>
     (let u = map regexCanonicalize url
      in startsWith u ''HTTP://'' \<or> startsWith u ''HTTPS://'')"

definition stripLeadingSlash :: "string \<Rightarrow> string" where
  "stripLeadingSlash path = (case path of [] \<Rightarrow> [] | c # cs \<Rightarrow> if c = CHR ''/'' then cs else c # cs)"

definition resolveAssetPath :: "string \<Rightarrow> string \<Rightarrow> string" where
  "resolveAssetPath SITE_ROOT path =
     (if path = [] then PLACEHOLDER_THUMB SITE_ROOT
      else if isExternal path \<or> startsWith path ''data:'' then path
      else SITE_ROOT @ stripLeadingSlash path)"

section \<open>Raw values and errors\<close>

text \<open>
  A raw record is whatever \<^verbatim>\<open>res.json()\<close> delivers: a parsed JSON value. The
  number type is a parameter \<open>'n\<close>; what the host does with a number (its string form
  and its truthiness) comes with it in a \<open>host\<close> record, together with the source text
  the host prints for a built-in function and the depth of nested arrays that its
  \<^verbatim>\<open>String\<close> conversion can enter before the call stack is exhausted. An object is the list of its own properties,
  each key once, as the parser leaves them.
\<close>

datatype 'n json =
    JNull
  | JBool bool
  | JNum 'n
  | JStr string
  | JArr "'n json list"
  | JObj "(string \<times> 'n json) list"

text \<open>What reading a property gives: nothing, a JSON value, or a built-in method.\<close>

datatype 'n jsval = Undefined | Value "'n json" | NativeFunction

datatype error = TypeError | RangeError | SyntaxError | Error string

record 'n host =
  numberToString :: "'n \<Rightarrow> string"
  numberTruthy :: "'n \<Rightarrow> bool"
  nativeFunctionSource :: string
  stackDepth :: nat

text \<open>
  \<^verbatim>\<open>p.key\<close> for the keys the script reads (\<^verbatim>\<open>title\<close>, \<^verbatim>\<open>slug\<close>,
  \<^verbatim>\<open>description\<close>, \<^verbatim>\<open>thumbnail\<close>, \<^verbatim>\<open>tags\<close>, \<^verbatim>\<open>category\<close>, \<^verbatim>\<open>featured\<close>,
  \<^verbatim>\<open>date\<close>, \<^verbatim>\<open>link\<close>). Reading a property of \<^verbatim>\<open>null\<close> throws a TypeError. An
  object gives its own property, or \<^verbatim>\<open>undefined\<close>: none of these keys is inherited
  from \<^verbatim>\<open>Object.prototype\<close>. Of the other values only a string inherits one of them:
  \<^verbatim>\<open>String.prototype.link\<close> is a built-in method.
\<close>

fun getProp :: "'n json \<Rightarrow> string \<Rightarrow> error + 'n jsval" where
  "getProp JNull k = Inl TypeError"
| "getProp (JObj kvs) k = Inr (case map_of kvs k of None \<Rightarrow> Undefined | Some v \<Rightarrow> Value v)"
| "getProp (JStr s) k = Inr (if k = ''link'' then NativeFunction else Undefined)"
| "getProp (JBool b) k = Inr Undefined"
| "getProp (JNum n) k = Inr Undefined"
| "getProp (JArr xs) k = Inr Undefined"

text \<open>Truthiness, as \<^verbatim>\<open>||\<close>, \<^verbatim>\<open>?:\<close> and \<^verbatim>\<open>!!\<close> test it.\<close>

fun truthy :: "'n host \<Rightarrow> 'n jsval \<Rightarrow> bool" where
  "truthy h Undefined = False"
| "truthy h NativeFunction = True"
| "truthy h (Value JNull) = False"
| "truthy h (Value (JBool b)) = b"
| "truthy h (Value (JNum n)) = numberTruthy h n"
| "truthy h (Value (JStr s)) = (s \<noteq> [])"
| "truthy h (Value (JArr xs)) = True"
| "truthy h (Value (JObj kvs)) = True"

text \<open>
  \<^verbatim>\<open>String(v)\<close>. An array is its elements joined by commas, \<^verbatim>\<open>null\<close> elements as
  the empty string. A plain object is \<^verbatim>\<open>[object Object]\<close>, unless it has an own
  property \<^verbatim>\<open>toString\<close>: a JSON value is never callable, the inherited
  \<^verbatim>\<open>valueOf\<close> returns the object itself, and the conversion throws a TypeError.
  Converting an array calls the conversion of its elements; \<open>d\<close> is the number of
  nested arrays the call stack still has room for, and an array met at \<open>d = 0\<close> throws
  a RangeError.
\<close>

fun toStringJ :: "'n host \<Rightarrow> nat \<Rightarrow> 'n json \<Rightarrow> error + string"
  and elementStrings :: "'n host \<Rightarrow> nat \<Rightarrow> 'n json list \<Rightarrow> error + string list" where
  "toStringJ h d JNull = Inr ''null''"
| "toStringJ h d (JBool b) = Inr (if b then ''true'' else ''false'')"
| "toStringJ h d (JNum n) = Inr (numberToString h n)"
| "toStringJ h d (JStr s) = Inr s"
| "toStringJ h d (JArr xs) =
     (if d = 0 then Inl RangeError
      else case elementStrings h (d - 1) xs of Inl e \<Rightarrow> Inl e | Inr ss \<Rightarrow> Inr (join '','' ss))"
| "toStringJ h d (JObj kvs) =
     (if ''toString'' \<in> set (map fst kvs) then Inl TypeError else Inr ''[object Object]'')"
| "elementStrings h d [] = Inr []"
| "elementStrings h d (x # xs) =
     (case (case x of JNull \<Rightarrow> Inr [] | _ \<Rightarrow> toStringJ h d x) of
        Inl e \<Rightarrow> Inl e
      | Inr s \<Rightarrow> (case elementStrings h d xs of Inl e \<Rightarrow> Inl e | Inr ss \<Rightarrow> Inr (s # ss)))"

fun String :: "'n host \<Rightarrow> 'n jsval \<Rightarrow> error + string" where
  "String h Undefined = Inr ''undefined''"
| "String h NativeFunction = Inr (nativeFunctionSource h)"
| "String h (Value v) = toStringJ h (stackDepth h) v"

text \<open>\<^verbatim>\<open>xs.map(f)\<close> where \<open>f\<close> may throw: the first error ends the loop.\<close>

fun mapE :: "('a \<Rightarrow> error + 'b) \<Rightarrow> 'a list \<Rightarrow> error + 'b list" where
  "mapE f [] = Inr []"
| "mapE f (x # xs) =
     (case f x of
        Inl e \<Rightarrow> Inl e
      | Inr y \<Rightarrow> (case mapE f xs of Inl e \<Rightarrow> Inl e | Inr ys \<Rightarrow> Inr (y # ys)))"

definition bindE :: "error + 'a \<Rightarrow> ('a \<Rightarrow> error + 'b) \<Rightarrow> error + 'b" where
  "bindE m f = (case m of Inl e \<Rightarrow> Inl e | Inr x \<Rightarrow> f x)"

section \<open>Project normalizer\<close>

record project =
  title :: string
  slug :: string
  description :: string
  thumbnail :: string
  tags :: "string list"
  category :: string
  featured :: bool
  date :: string
  link :: string

text \<open>\<^verbatim>\<open>String(p.key || dflt).trim()\<close>\<close>

definition stringOr :: "'n host \<Rightarrow> 'n json \<Rightarrow> string \<Rightarrow> string \<Rightarrow> error + string" where
  "stringOr h p k dflt =
     bindE (getProp p k) (\<lambda>v.
       bindE (if truthy h v then String h v else Inr dflt) (\<lambda>s. Inr (trim s)))"

text \<open>
  \<^verbatim>\<open>Array.isArray(p.tags) ? p.tags.map(t => String(t).trim()).filter(Boolean) : []\<close>
\<close>

definition normalizeTags :: "'n host \<Rightarrow> 'n json \<Rightarrow> error + string list" where
  "normalizeTags h p =
     bindE (getProp p ''tags'') (\<lambda>v.
       case v of
         Value (JArr ts) \<Rightarrow>
           bindE (mapE (\<lambda>t. bindE (toStringJ h (stackDepth h) t) (\<lambda>s. Inr (trim s))) ts) (\<lambda>ss.
             Inr (filter (\<lambda>s. s \<noteq> []) ss))
       | _ \<Rightarrow> Inr [])"

text \<open>\<^verbatim>\<open>p.link ? String(p.link).trim() : ""\<close>\<close>

definition normalizeLink :: "'n host \<Rightarrow> 'n json \<Rightarrow> error + string" where
  "normalizeLink h p =
     bindE (getProp p ''link'') (\<lambda>v.
       if truthy h v then bindE (String h v) (\<lambda>s. Inr (trim s)) else Inr [])"

definition normalizeProject :: "'n host \<Rightarrow> 'n json \<Rightarrow> error + project" where
  "normalizeProject h p =
     bindE (stringOr h p ''title'' []) (\<lambda>t.
     bindE (stringOr h p ''slug'' []) (\<lambda>sl.
     bindE (stringOr h p ''description'' []) (\<lambda>de.
     bindE (stringOr h p ''thumbnail'' []) (\<lambda>th.
     bindE (normalizeTags h p) (\<lambda>tg.
     bindE (stringOr h p ''category'' ''Other'') (\<lambda>ca.
     bindE (getProp p ''featured'') (\<lambda>fe.
     bindE (stringOr h p ''date'' []) (\<lambda>da.
     bindE (normalizeLink h p) (\<lambda>li.
       Inr \<lparr> title = t, slug = sl, description = de, thumbnail = th, tags = tg,
             category = (if ca = [] then ''Other'' else ca),
             featured = truthy h fe, date = da, link = li \<rparr>)))))))))"

text \<open>A normalized record read back as a raw value (the object the function returned).\<close>

definition asRaw :: "project \<Rightarrow> 'n json" where
  "asRaw r =
     JObj [(''title'', JStr (title r)), (''slug'', JStr (slug r)),
           (''description'', JStr (description r)), (''thumbnail'', JStr (thumbnail r)),
           (''tags'', JArr (map JStr (tags r))), (''category'', JStr (category r)),
           (''featured'', JBool (featured r)), (''date'', JStr (date r)),
           (''link'', JStr (link r))]"

section \<open>Project loader\<close>

text \<open>
  What \<^verbatim>\<open>fetch\<close> resolved with: the \<^verbatim>\<open>ok\<close> flag of the response, and its body as
  \<^verbatim>\<open>res.json()\<close> parses it (\<open>None\<close> when the body is not JSON text; the call then
  rejects with a SyntaxError). A \<^verbatim>\<open>fetch\<close> that rejects is \<open>Inl\<close> of its error.
\<close>

record 'n response =
  ok :: bool
  body :: "'n json option"

definition loadProjects :: "'n host \<Rightarrow> error + 'n response \<Rightarrow> error + project list" where
  "loadProjects h fetched =
     bindE fetched (\<lambda>res.
       if \<not> ok res then Inl (Error ''Couldn't load projects.json'')
       else bindE (case body res of None \<Rightarrow> Inl SyntaxError | Some d \<Rightarrow> Inr d) (\<lambda>data.
         bindE (mapE (normalizeProject h) (case data of JArr xs \<Rightarrow> xs | _ \<Rightarrow> [])) (\<lambda>ps.
           Inr (filter (\<lambda>p. title p \<noteq> [] \<and> slug p \<noteq> []) ps))))"

section \<open>Filter and sort engine\<close>

text \<open>
  \<^verbatim>\<open>normalizeText(s)\<close> is \<^verbatim>\<open>String(s || "").toLowerCase()\<close>. It is applied to
  the text of the search box and to fields of normalized records, all strings, where
  \<^verbatim>\<open>String(s || "")\<close> is \<open>s\<close>.
\<close>

definition normalizeText :: "string \<Rightarrow> string" where
  "normalizeText s = toLowerCase s"

definition haystack :: "project \<Rightarrow> string" where
  "haystack p =
     join '' '' (map normalizeText ([title p, description p, category p] @ tags p))"

definition matches :: "project \<Rightarrow> string \<Rightarrow> bool" where
  "matches p query =
     (let q = trim (normalizeText query)
      in if q = [] then True else includesStr (haystack p) q)"

text \<open>
  \<^verbatim>\<open>applyFilters\<close> reads the closure's \<^verbatim>\<open>allProjects\<close> and \<^verbatim>\<open>activeTag\<close>, and
  the two controls, each \<open>None\<close> when the page has no such element and \<open>Some value\<close>
  otherwise. The result is the list \<^verbatim>\<open>filtered\<close> whose cards it renders.
\<close>

definition applyFilters ::
    "project list \<Rightarrow> string \<Rightarrow> string option \<Rightarrow> string option \<Rightarrow> project list" where
  "applyFilters allProjects activeTag searchInput categorySelect =
     (let q = (case searchInput of Some v \<Rightarrow> v | None \<Rightarrow> []);
          cat = (case categorySelect of Some v \<Rightarrow> v | None \<Rightarrow> ''All'')
      in filter (\<lambda>p.
           let catOk = (cat = ''All'' \<or> category p = cat);
               tagOk = (activeTag = ''All'' \<or> activeTag \<in> set (tags p))
           in catOk \<and> tagOk \<and> matches p q) allProjects)"

text \<open>
  The comparator passed to \<^verbatim>\<open>sort\<close> in \<^verbatim>\<open>renderProjectsList\<close>. The collation
  \<^verbatim>\<open>x.localeCompare(y)\<close> belongs to the host and its locale; it is the parameter
  \<open>localeCompare\<close>, negative, zero or positive.
\<close>

definition compareProjects :: "(string \<Rightarrow> string \<Rightarrow> int) \<Rightarrow> project \<Rightarrow> project \<Rightarrow> int" where
  "compareProjects localeCompare a b =
     (if date a \<noteq> [] \<and> date b \<noteq> [] then localeCompare (date b) (date a)
      else if date a \<noteq> [] then - 1
      else if date b \<noteq> [] then 1
      else localeCompare (title a) (title b))"

text \<open>
  \<^verbatim>\<open>Array.prototype.sort\<close> with a comparator is a stable sort: it orders by the
  comparator and keeps elements that compare equal in their input order. Insertion from
  the right, each element placed before the first one it does not exceed, computes that.
\<close>

fun insertBy :: "('a \<Rightarrow> 'a \<Rightarrow> int) \<Rightarrow> 'a \<Rightarrow> 'a list \<Rightarrow> 'a list" where
  "insertBy cmp x [] = [x]"
| "insertBy cmp x (y # ys) = (if cmp x y \<le> 0 then x # y # ys else y # insertBy cmp x ys)"

fun sortBy :: "('a \<Rightarrow> 'a \<Rightarrow> int) \<Rightarrow> 'a list \<Rightarrow> 'a list" where
  "sortBy cmp [] = []"
| "sortBy cmp (x # xs) = insertBy cmp x (sortBy cmp xs)"

definition sortProjects :: "(string \<Rightarrow> string \<Rightarrow> int) \<Rightarrow> project list \<Rightarrow> project list" where
  "sortProjects localeCompare projects = sortBy (compareProjects localeCompare) projects"

text \<open>
  What \<^verbatim>\<open>sort\<close> asks of a comparator to give a defined order: equal to itself,
  antisymmetric in sign, and transitive.
\<close>

definition consistent :: "('a \<Rightarrow> 'a \<Rightarrow> int) \<Rightarrow> bool" where
  "consistent cmp \<longleftrightarrow>
     (\<forall>x. cmp x x = 0) \<and>
     (\<forall>x y. sgn (cmp x y) = - sgn (cmp y x)) \<and>
     (\<forall>x y z. cmp x y \<le> 0 \<and> cmp y z \<le> 0 \<longrightarrow> cmp x z \<le> 0)"

text \<open>
  One collation to run the sort with: comparison of code units, position by position,
  a proper prefix first.
\<close>

fun codeUnitCompare :: "string \<Rightarrow> string \<Rightarrow> int" where
  "codeUnitCompare [] [] = 0"
| "codeUnitCompare [] (y # ys) = - 1"
| "codeUnitCompare (x # xs) [] = 1"
| "codeUnitCompare (x # xs) (y # ys) =
     (if (of_char x :: nat) < of_char y then - 1
      else if (of_char y :: nat) < of_char x then 1
      else codeUnitCompare xs ys)"

text \<open>
  The order of section 4.5 as the specification words it, for a pair \<open>a\<close> before
  \<open>b\<close>: a dated record before an undated one; of two dates the greater first; with no
  difference between the dates, the lesser title first.
\<close>

definition specOrder :: "(string \<Rightarrow> string \<Rightarrow> int) \<Rightarrow> project \<Rightarrow> project \<Rightarrow> bool" where
  "specOrder localeCompare a b \<longleftrightarrow>
     (if date a \<noteq> [] \<and> date b = [] then True
      else if date a = [] \<and> date b \<noteq> [] then False
      else if localeCompare (date b) (date a) < 0 then True
      else if localeCompare (date b) (date a) > 0 then False
      else localeCompare (title a) (title b) \<le> 0)"

text \<open>
  The query criterion of section 4.5 as the specification words it: the query is empty,
  or occurs, case ignored, in the concatenation of title, description, category and tags.
\<close>

definition specQueryOk :: "project \<Rightarrow> string \<Rightarrow> bool" where
  "specQueryOk p Q \<longleftrightarrow>
     Q = [] \<or>
     includesStr (toLowerCase (title p @ description p @ category p @ concat (tags p)))
       (toLowerCase Q)"

definition specVisible :: "string \<Rightarrow> string \<Rightarrow> string \<Rightarrow> project \<Rightarrow> bool" where
  "specVisible C T Q p \<longleftrightarrow>
     (C = ''All'' \<or> category p = C) \<and> (T = ''All'' \<or> T \<in> set (tags p)) \<and> specQueryOk p Q"

section \<open>Featured view\<close>

text \<open>
  \<^verbatim>\<open>xs.slice(0, end)\<close> for an integer \<open>end\<close>: a negative \<open>end\<close> counts from the
  end of the array.
\<close>

definition slice0 :: "'a list \<Rightarrow> int \<Rightarrow> 'a list" where
  "slice0 xs end =
     (let len = int (length xs);
          final = (if end < 0 then max (len + end) 0 else min end len)
      in take (nat final) xs)"

text \<open>
  \<^verbatim>\<open>renderFeatured\<close>: the list whose cards are rendered, from the option
  \<^verbatim>\<open>limit\<close> (\<open>None\<close> when the caller gives none; the default is 6) and the loaded
  projects.
\<close>

definition renderFeatured :: "int option \<Rightarrow> project list \<Rightarrow> project list" where
  "renderFeatured limitOpt projects =
     (let limit = (case limitOpt of None \<Rightarrow> 6 | Some n \<Rightarrow> n);
          featuredList = slice0 (filter featured projects) limit
      in if length featuredList \<noteq> 0 then featuredList else slice0 projects limit)"

section \<open>Auxiliary notions for the statements\<close>

text \<open>
  A value that \<^verbatim>\<open>String\<close> converts without throwing, with room for \<open>d\<close> nested
  arrays: it is not an object with an own property \<^verbatim>\<open>toString\<close>, it nests arrays no
  deeper than \<open>d\<close>, and the same holds of every element it reaches through arrays.
\<close>

fun convertible :: "nat \<Rightarrow> 'n json \<Rightarrow> bool"
  and convertibleAll :: "nat \<Rightarrow> 'n json list \<Rightarrow> bool" where
  "convertible d (JObj kvs) \<longleftrightarrow> ''toString'' \<notin> set (map fst kvs)"
| "convertible d (JArr xs) \<longleftrightarrow> d \<noteq> 0 \<and> convertibleAll (d - 1) xs"
| "convertible d JNull \<longleftrightarrow> True"
| "convertible d (JBool b) \<longleftrightarrow> True"
| "convertible d (JNum n) \<longleftrightarrow> True"
| "convertible d (JStr s) \<longleftrightarrow> True"
| "convertibleAll d [] \<longleftrightarrow> True"
| "convertibleAll d (x # xs) \<longleftrightarrow> convertible d x \<and> convertibleAll d xs"

text \<open>
  The raw values on which the normalizer gets through: not \<^verbatim>\<open>null\<close>; each of the
  seven fields it passes to \<^verbatim>\<open>String\<close>, where present, converts; and so does every
  element of \<^verbatim>\<open>tags\<close> when that is an array. The field \<^verbatim>\<open>featured\<close> and the keys
  the script does not read are free.
\<close>

definition textKeys :: "string list" where
  "textKeys = [''title'', ''slug'', ''description'', ''thumbnail'', ''category'', ''date'', ''link'']"

definition fieldConverts :: "'n host \<Rightarrow> 'n json \<Rightarrow> string \<Rightarrow> bool" where
  "fieldConverts h raw k \<longleftrightarrow>
     (case getProp raw k of Inr (Value v) \<Rightarrow> convertible (stackDepth h) v | _ \<Rightarrow> True)"

definition tagsConvert :: "'n host \<Rightarrow> 'n json \<Rightarrow> bool" where
  "tagsConvert h raw \<longleftrightarrow>
     (case getProp raw ''tags'' of
        Inr (Value (JArr ts)) \<Rightarrow> convertibleAll (stackDepth h) ts
      | _ \<Rightarrow> True)"

definition normalizable :: "'n host \<Rightarrow> 'n json \<Rightarrow> bool" where
  "normalizable h raw \<longleftrightarrow>
     raw \<noteq> JNull \<and> list_all (fieldConverts h raw) textKeys \<and> tagsConvert h raw"

text \<open>The value \<open>v\<close> wrapped in \<open>k\<close> arrays of one element.\<close>

fun nest :: "nat \<Rightarrow> 'n json \<Rightarrow> 'n json" where
  "nest 0 v = v"
| "nest (Suc k) v = JArr [nest k v]"

text \<open>A field that \<^verbatim>\<open>||\<close> and \<^verbatim>\<open>?:\<close> replace by the default: read without error, and falsy.\<close>

definition falsyField :: "'n host \<Rightarrow> 'n json \<Rightarrow> string \<Rightarrow> bool" where
  "falsyField h raw k \<longleftrightarrow> (case getProp raw k of Inr v \<Rightarrow> \<not> truthy h v | Inl e \<Rightarrow> False)"

text \<open>A field that is missing, or a string that is empty once trimmed.\<close>

definition missingOrBlank :: "'n json \<Rightarrow> string \<Rightarrow> bool" where
  "missingOrBlank raw k \<longleftrightarrow>
     (case getProp raw k of
        Inr Undefined \<Rightarrow> True
      | Inr (Value (JStr s)) \<Rightarrow> trim s = []
      | _ \<Rightarrow> False)"

text \<open>
  One host to run the script on: numbers are the integers, printed in decimal, zero the
  only falsy one; a built-in function prints as V8 prints it; the conversion has room for
  1000 nested arrays.
\<close>

function decimal :: "nat \<Rightarrow> string" where
  "decimal n =
     (if n < 10 then [char_of (48 + n)] else decimal (n div 10) @ [char_of (48 + n mod 10)])"
  by pat_completeness auto
termination
  by (relation "measure id") auto

definition integerHost :: "int host" where
  "integerHost =
     \<lparr> numberToString = (\<lambda>i. if i < 0 then CHR ''-'' # decimal (nat (- i)) else decimal (nat i)),
       numberTruthy = (\<lambda>i. i \<noteq> 0),
       nativeFunctionSource = ''function link() { [native code] }'',
       stackDepth = 1000 \<rparr>"

text \<open>A record with the given title, description, tags and date, and defaults elsewhere.\<close>

definition sample :: "string \<Rightarrow> string \<Rightarrow> string list \<Rightarrow> string \<Rightarrow> project" where
  "sample t d ts da =
     \<lparr> title = t, slug = ''s'', description = d, thumbnail = [], tags = ts,
       category = ''Other'', featured = False, date = da, link = [] \<rparr>"

section \<open>Facts about the string methods\<close>

lemma endsWith_slash_iff: "endsWith s ''/'' \<longleftrightarrow> (\<exists>pre. s = pre @ ''/'')"
proof
  assume "endsWith s ''/''"
  then have "1 \<le> length s" and "drop (length s - 1) s = ''/''"
    by (simp_all add: endsWith_def)
  then have "s = take (length s - 1) s @ ''/''"
    by (metis append_take_drop_id)
  then show "\<exists>pre. s = pre @ ''/''" ..
next
  assume "\<exists>pre. s = pre @ ''/''"
  then show "endsWith s ''/''"
    by (auto simp: endsWith_def)
qed

lemma lowerChar_ws: "isWhiteSpace c \<Longrightarrow> lowerChar c = c"
  by (auto simp: isWhiteSpace_def lowerChar_def)

lemma toLowerCase_ws: "\<forall>c \<in> set s. isWhiteSpace c \<Longrightarrow> toLowerCase s = s"
  by (induction s) (simp_all add: toLowerCase_def lowerChar_ws)

lemma trim_ws: "\<forall>c \<in> set s. isWhiteSpace c \<Longrightarrow> trim s = []"
  by (auto simp: trim_def dest: set_dropWhileD)

lemma slice0_nonneg: "0 \<le> n \<Longrightarrow> slice0 xs n = take (nat n) xs"
  by (simp add: slice0_def Let_def min_def)

lemma startsWith_iff: "startsWith s pre \<longleftrightarrow> (\<exists>suf. s = pre @ suf)"
proof
  assume "startsWith s pre"
  then have "s = pre @ drop (length pre) s"
    by (metis append_take_drop_id startsWith_def)
  then show "\<exists>suf. s = pre @ suf" ..
next
  assume "\<exists>suf. s = pre @ suf"
  then show "startsWith s pre"
    by (auto simp: startsWith_def)
qed

lemma includesStr_iff: "includesStr hay q \<longleftrightarrow> (\<exists>pre suf. hay = pre @ q @ suf)"
proof (induction hay)
  case Nil
  show ?case by simp
next
  case (Cons c cs)
  show ?case
  proof
    assume "includesStr (c # cs) q"
    then consider "startsWith (c # cs) q" | "includesStr cs q"
      by auto
    then show "\<exists>pre suf. c # cs = pre @ q @ suf"
    proof cases
      case 1
      then obtain suf where "c # cs = q @ suf"
        by (auto simp: startsWith_iff)
      then have "c # cs = [] @ q @ suf" by simp
      then show ?thesis by blast
    next
      case 2
      with Cons.IH obtain pre suf where "cs = pre @ q @ suf" by blast
      then have "c # cs = (c # pre) @ q @ suf" by simp
      then show ?thesis by blast
    qed
  next
    assume "\<exists>pre suf. c # cs = pre @ q @ suf"
    then obtain pre suf where eq: "c # cs = pre @ q @ suf" by blast
    show "includesStr (c # cs) q"
    proof (cases pre)
      case Nil
      with eq have "startsWith (c # cs) q"
        by (auto simp: startsWith_iff)
      then show ?thesis by simp
    next
      case (Cons d pre')
      with eq have "cs = pre' @ q @ suf" by simp
      with Cons.IH have "includesStr cs q" by blast
      then show ?thesis by simp
    qed
  qed
qed

lemma normalizeText_eq: "normalizeText = toLowerCase"
  by (rule ext) (simp add: normalizeText_def)

lemma matches_iff:
  "matches p Q \<longleftrightarrow>
      trim (toLowerCase Q) = [] \<or>
      (\<exists>pre suf.
          join '' '' (map toLowerCase ([title p, description p, category p] @ tags p)) =
            pre @ trim (toLowerCase Q) @ suf)"
  unfolding matches_def haystack_def Let_def includesStr_iff normalizeText_eq
  by auto

section \<open>Path resolver: the base path\<close>

text \<open>
  Claim C9. For every site-root value of the page, absent and empty included,
  \<^verbatim>\<open>getSiteRoot\<close> returns a path that ends with the separator \<^verbatim>\<open>/\<close>, and it
  returns exactly \<^verbatim>\<open>./\<close> when the value is unset or empty.
\<close>

theorem getSiteRoot_base_path:
  "(\<exists>pre. getSiteRoot meta = pre @ ''/'') \<and>
   (meta = None \<or> meta = Some [] \<longrightarrow> getSiteRoot meta = ''./'')"
proof -
  have "endsWith (getSiteRoot meta) ''/''"
    by (auto simp: getSiteRoot_def Let_def endsWith_def split: option.splits)
  moreover have "meta = None \<or> meta = Some [] \<longrightarrow> getSiteRoot meta = ''./''"
    by (auto simp: getSiteRoot_def Let_def endsWith_def)
  ultimately show ?thesis
    by (simp add: endsWith_slash_iff)
qed

theorem getSiteRoot_base_path_witness:
  "getSiteRoot (Some []) = ''./'' \<and> getSiteRoot None = ''./'' \<and>
   getSiteRoot (Some '' ../docs '') = ''../docs/''"
  using getSiteRoot_base_path [of "Some []"] getSiteRoot_base_path [of None]
  by (simp add: getSiteRoot_def trim_def isWhiteSpace_def endsWith_def)

section \<open>Featured view: the selection\<close>

text \<open>
  Claim C6. For every loaded list and every limit \<open>N\<close> (a count; 6 when the caller
  gives none), \<^verbatim>\<open>renderFeatured\<close> shows the records with \<^verbatim>\<open>featured = true\<close>, cut
  to the first \<open>N\<close> in load order; when no record is featured it shows the first
  \<open>N\<close> records of the list, in load order.
\<close>

theorem renderFeatured_selection:
  "0 \<le> N \<Longrightarrow>
     renderFeatured (Some N) projects =
       (if \<exists>p \<in> set projects. featured p then take (nat N) (filter featured projects)
        else take (nat N) projects) \<and>
     renderFeatured None projects = renderFeatured (Some 6) projects"
proof -
  assume N: "0 \<le> N"
  show ?thesis
  proof (cases "\<exists>p \<in> set projects. featured p")
    case someFeatured: True
    then have ne: "filter featured projects \<noteq> []"
      by (simp add: filter_empty_conv)
    show ?thesis
    proof (cases "nat N = 0")
      case True
      with N someFeatured show ?thesis
        by (simp add: renderFeatured_def slice0_nonneg Let_def)
    next
      case False
      with ne have "take (nat N) (filter featured projects) \<noteq> []"
        by simp
      with N someFeatured show ?thesis
        by (simp add: renderFeatured_def slice0_nonneg Let_def)
    qed
  next
    case False
    then have "filter featured projects = []"
      by (simp add: filter_empty_conv)
    with N False show ?thesis
      by (simp add: renderFeatured_def slice0_nonneg Let_def)
  qed
qed

theorem renderFeatured_selection_witness:
  "(0::int) \<le> 1 \<and>
   renderFeatured (Some 1)
     [sample ''A'' [] [] [], (sample ''B'' [] [] []) \<lparr> featured := True \<rparr>,
      (sample ''C'' [] [] []) \<lparr> featured := True \<rparr>]
     = [(sample ''B'' [] [] []) \<lparr> featured := True \<rparr>] \<and>
   renderFeatured (Some 1) [sample ''A'' [] [] [], sample ''B'' [] [] []]
     = [sample ''A'' [] [] []]"
  using renderFeatured_selection [of 1
      "[sample ''A'' [] [] [], (sample ''B'' [] [] []) \<lparr> featured := True \<rparr>,
        (sample ''C'' [] [] []) \<lparr> featured := True \<rparr>]"]
    renderFeatured_selection [of 1 "[sample ''A'' [] [] [], sample ''B'' [] [] []]"]
  by (simp add: sample_def)

section \<open>Query predicate: a query of white space\<close>

text \<open>
  Claim C10. For every project record, a query made only of white-space characters is
  treated as the empty query: \<^verbatim>\<open>matches\<close> lower-cases and trims the query before it
  tests for emptiness, and returns true, so such a query filters out no record.
\<close>

theorem matches_whitespace_query:
  "\<forall>c \<in> set query. isWhiteSpace c \<Longrightarrow> matches p query"
  by (simp add: matches_def normalizeText_def toLowerCase_ws trim_ws)

theorem matches_whitespace_query_witness:
  "isWhiteSpace (CHR 0x20) \<and> isWhiteSpace (CHR 0x09) \<and> isWhiteSpace (CHR 0xA0) \<and>
   matches (sample ''Bluebird'' ''a bird'' [''x''] []) [CHR 0x20, CHR 0x09, CHR 0xA0]"
  using matches_whitespace_query
    [of "[CHR 0x20, CHR 0x09, CHR 0xA0]" "sample ''Bluebird'' ''a bird'' [''x''] []"]
  by (simp add: isWhiteSpace_def)

section \<open>Thumbnail resolution\<close>

text \<open>
  Claim C7. \<^verbatim>\<open>resolveAssetPath\<close>: the empty path gives the placeholder asset under
  the site root; an external http(s) URL or a \<^verbatim>\<open>data:\<close> URI is returned as it is;
  any other path loses one leading \<^verbatim>\<open>/\<close>, if it has one, and is prefixed with the
  site root. Under the site root \<^verbatim>\<open>./\<close> both \<^verbatim>\<open>assets/a.png\<close> and
  \<^verbatim>\<open>/assets/a.png\<close> resolve to \<^verbatim>\<open>./assets/a.png\<close>.
\<close>

theorem resolveAssetPath_cases:
  "resolveAssetPath root [] = root @ ''assets/thumbs/placeholder.svg'' \<and>
   (isExternal path \<or> startsWith path ''data:'' \<longrightarrow> resolveAssetPath root path = path) \<and>
   (path \<noteq> [] \<and> \<not> isExternal path \<and> \<not> startsWith path ''data:'' \<longrightarrow>
      resolveAssetPath root path = root @ (if hd path = CHR ''/'' then tl path else path)) \<and>
   resolveAssetPath ''./'' ''assets/a.png'' = ''./assets/a.png'' \<and>
   resolveAssetPath ''./'' ''/assets/a.png'' = ''./assets/a.png''"
proof -
  have empty: "resolveAssetPath root [] = root @ ''assets/thumbs/placeholder.svg''"
    by (simp add: resolveAssetPath_def PLACEHOLDER_THUMB_def)
  have "\<not> isExternal []" and "\<not> startsWith [] ''data:''"
    by (simp_all add: isExternal_def startsWith_def)
  then have verbatim: "isExternal path \<or> startsWith path ''data:'' \<longrightarrow> resolveAssetPath root path = path"
    by (auto simp: resolveAssetPath_def)
  have other: "path \<noteq> [] \<and> \<not> isExternal path \<and> \<not> startsWith path ''data:'' \<longrightarrow>
      resolveAssetPath root path = root @ (if hd path = CHR ''/'' then tl path else path)"
    by (cases path) (simp_all add: resolveAssetPath_def stripLeadingSlash_def)
  have a: "resolveAssetPath ''./'' ''assets/a.png'' = ''./assets/a.png''"
    by (simp add: resolveAssetPath_def isExternal_def startsWith_def regexCanonicalize_def
        stripLeadingSlash_def)
  have b: "resolveAssetPath ''./'' ''/assets/a.png'' = ''./assets/a.png''"
    by (simp add: resolveAssetPath_def isExternal_def startsWith_def regexCanonicalize_def
        stripLeadingSlash_def)
  from empty verbatim other a b show ?thesis by blast
qed

theorem resolveAssetPath_cases_witness:
  "isExternal ''HTTPS://cdn.example/a.png'' \<and>
   resolveAssetPath ''../'' ''HTTPS://cdn.example/a.png'' = ''HTTPS://cdn.example/a.png'' \<and>
   startsWith ''data:image/png;base64,AA'' ''data:'' \<and>
   resolveAssetPath ''../'' ''data:image/png;base64,AA'' = ''data:image/png;base64,AA'' \<and>
   \<not> isExternal ''//img/a.png'' \<and> \<not> startsWith ''//img/a.png'' ''data:'' \<and>
   resolveAssetPath ''../'' ''//img/a.png'' = ''..//img/a.png''"
  using resolveAssetPath_cases [of "''../''" "''HTTPS://cdn.example/a.png''"]
    resolveAssetPath_cases [of "''../''" "''data:image/png;base64,AA''"]
    resolveAssetPath_cases [of "''../''" "''//img/a.png''"]
  by (simp add: isExternal_def startsWith_def regexCanonicalize_def)

section \<open>Filter: the visible subset\<close>

text \<open>
  Claim C2, as the specification words it, fails: the query is trimmed before the test
  for emptiness, and the fields are joined with single spaces, not concatenated. For a
  record titled \<^verbatim>\<open>a\<close> with description \<^verbatim>\<open>b\<close>, the query \<^verbatim>\<open>ab\<close> occurs in the
  concatenation, yet the record is not shown; a query of one space does not occur in it,
  yet the record is shown.
\<close>

theorem applyFilters_spec_counterexample:
  "\<not> ((specVisible ''All'' ''All'' ''ab'' (sample ''a'' ''b'' [] []) \<longleftrightarrow>
        sample ''a'' ''b'' [] [] \<in> set (applyFilters [sample ''a'' ''b'' [] []] ''All'' (Some ''ab'') (Some ''All''))) \<and>
       (specVisible ''All'' ''All'' '' '' (sample ''a'' ''b'' [] []) \<longleftrightarrow>
        sample ''a'' ''b'' [] [] \<in> set (applyFilters [sample ''a'' ''b'' [] []] ''All'' (Some '' '') (Some ''All''))))"
proof -
  have "specVisible ''All'' ''All'' ''ab'' (sample ''a'' ''b'' [] [])"
    by code_simp
  moreover have "applyFilters [sample ''a'' ''b'' [] []] ''All'' (Some ''ab'') (Some ''All'') = []"
    by code_simp
  ultimately show ?thesis by simp
qed

text \<open>
  Claim C2, amended. A record is in the visible subset if and only if it is in the loaded
  list and all three hold: the category selection is \<^verbatim>\<open>All\<close> or equals the record's
  category; the tag selection is \<^verbatim>\<open>All\<close> or is one of the record's tags; and the
  query, lower-cased and trimmed, is empty or occurs in the lower-cased title, description,
  category and tags joined by single spaces. The visible set is the intersection of the
  three match sets, and the list is the same in whichever order the criteria are applied.
  Absent controls count as the empty query and the category \<^verbatim>\<open>All\<close>.
\<close>

theorem applyFilters_visible:
  "(p \<in> set (applyFilters allProjects T (Some Q) (Some C)) \<longleftrightarrow>
      p \<in> set allProjects \<and>
      (C = ''All'' \<or> category p = C) \<and>
      (T = ''All'' \<or> T \<in> set (tags p)) \<and>
      (trim (toLowerCase Q) = [] \<or>
       (\<exists>pre suf.
          join '' '' (map toLowerCase ([title p, description p, category p] @ tags p)) =
            pre @ trim (toLowerCase Q) @ suf))) \<and>
   set (applyFilters allProjects T (Some Q) (Some C)) =
     {p \<in> set allProjects. C = ''All'' \<or> category p = C} \<inter>
     {p \<in> set allProjects. T = ''All'' \<or> T \<in> set (tags p)} \<inter>
     {p \<in> set allProjects. matches p Q} \<and>
   applyFilters allProjects T (Some Q) (Some C) =
     filter (\<lambda>p. C = ''All'' \<or> category p = C)
       (filter (\<lambda>p. T = ''All'' \<or> T \<in> set (tags p))
         (filter (\<lambda>p. matches p Q) allProjects)) \<and>
   applyFilters allProjects T (Some Q) (Some C) =
     filter (\<lambda>p. matches p Q)
       (filter (\<lambda>p. T = ''All'' \<or> T \<in> set (tags p))
         (filter (\<lambda>p. C = ''All'' \<or> category p = C) allProjects)) \<and>
   applyFilters allProjects T None None = applyFilters allProjects T (Some []) (Some ''All'')"
proof -
  note m = matches_iff [of p Q]
  have mem: "p \<in> set (applyFilters allProjects T (Some Q) (Some C)) \<longleftrightarrow>
      p \<in> set allProjects \<and> (C = ''All'' \<or> category p = C) \<and>
      (T = ''All'' \<or> T \<in> set (tags p)) \<and> matches p Q"
    by (auto simp: applyFilters_def Let_def)
  have sets: "set (applyFilters allProjects T (Some Q) (Some C)) =
     {p \<in> set allProjects. C = ''All'' \<or> category p = C} \<inter>
     {p \<in> set allProjects. T = ''All'' \<or> T \<in> set (tags p)} \<inter>
     {p \<in> set allProjects. matches p Q}"
    by (auto simp: applyFilters_def Let_def)
  have l1: "applyFilters allProjects T (Some Q) (Some C) =
     filter (\<lambda>p. C = ''All'' \<or> category p = C)
       (filter (\<lambda>p. T = ''All'' \<or> T \<in> set (tags p))
         (filter (\<lambda>p. matches p Q) allProjects))"
    by (auto simp: applyFilters_def Let_def intro: filter_cong)
  have l2: "applyFilters allProjects T (Some Q) (Some C) =
     filter (\<lambda>p. matches p Q)
       (filter (\<lambda>p. T = ''All'' \<or> T \<in> set (tags p))
         (filter (\<lambda>p. C = ''All'' \<or> category p = C) allProjects))"
    by (auto simp: applyFilters_def Let_def intro: filter_cong)
  have l3: "applyFilters allProjects T None None = applyFilters allProjects T (Some []) (Some ''All'')"
    by (simp add: applyFilters_def)
  from mem m sets l1 l2 l3 show ?thesis by blast
qed

theorem applyFilters_visible_witness:
  "applyFilters [sample ''Bluebird'' ''a bird'' [''x''] [], sample ''Crow'' [] [''y''] []]
      ''x'' (Some '' BLUE '') (Some ''Other'') = [sample ''Bluebird'' ''a bird'' [''x''] []] \<and>
   matches (sample ''Bluebird'' ''a bird'' [''x''] []) '' BLUE ''"
proof -
  have run: "applyFilters [sample ''Bluebird'' ''a bird'' [''x''] [], sample ''Crow'' [] [''y''] []]
      ''x'' (Some '' BLUE '') (Some ''Other'') = [sample ''Bluebird'' ''a bird'' [''x''] []]"
    by code_simp
  have m: "matches (sample ''Bluebird'' ''a bird'' [''x''] []) '' BLUE ''"
    by code_simp
  show ?thesis
    using run m applyFilters_visible [of "sample ''Bluebird'' ''a bird'' [''x''] []"
      "[sample ''Bluebird'' ''a bird'' [''x''] [], sample ''Crow'' [] [''y''] []]"
      "''x''" "'' BLUE ''" "''Other''"]
    by - (intro conjI; assumption)
qed

section \<open>Facts about the normalizer and the loader\<close>

lemma trim_idem: "trim (trim s) = trim s"
proof -
  define u where "u = dropWhile isWhiteSpace s"
  define t where "t = rev (dropWhile isWhiteSpace (rev u))"
  have t: "trim s = t"
    by (simp add: trim_def t_def u_def)
  have u: "u = t @ rev (takeWhile isWhiteSpace (rev u))"
    unfolding t_def by (metis rev_append rev_rev_ident takeWhile_dropWhile_id)
  have front: "dropWhile isWhiteSpace t = t"
  proof (cases t)
    case Nil
    then show ?thesis by simp
  next
    case (Cons c cs)
    with u have "u = (c # cs) @ rev (takeWhile isWhiteSpace (rev u))"
      by simp
    then have "u \<noteq> []" and "hd u = c"
      by (metis append_Cons list.distinct(1), metis append_Cons list.sel(1))
    moreover from \<open>u \<noteq> []\<close> have "\<not> isWhiteSpace (hd u)"
      unfolding u_def by (rule hd_dropWhile)
    ultimately have "\<not> isWhiteSpace c" by simp
    with Cons show ?thesis by simp
  qed
  have "rev t = dropWhile isWhiteSpace (rev u)"
    by (simp add: t_def)
  then have rear: "dropWhile isWhiteSpace (rev t) = rev t"
    by (simp add: dropWhile_idem)
  have "trim t = t"
    by (simp add: trim_def front rear)
  with t show ?thesis by simp
qed

lemma trim_Nil: "trim [] = []"
  by (simp add: trim_def)

lemma trim_Other: "trim ''Other'' = ''Other''"
  by (simp add: trim_def isWhiteSpace_def)

lemma bindE_Inr_iff: "bindE m f = Inr y \<longleftrightarrow> (\<exists>x. m = Inr x \<and> f x = Inr y)"
  by (cases m) (simp_all add: bindE_def)

lemma bindE_Inl_iff: "bindE m f = Inl e \<longleftrightarrow> m = Inl e \<or> (\<exists>x. m = Inr x \<and> f x = Inl e)"
  by (cases m) (simp_all add: bindE_def)

lemma bindE_simps: "bindE (Inr x) f = f x" "bindE (Inl e) f = Inl e"
  by (simp_all add: bindE_def)

lemma mapE_Inr_set: "mapE f xs = Inr ys \<Longrightarrow> y \<in> set ys \<Longrightarrow> \<exists>x \<in> set xs. f x = Inr y"
proof (induction xs arbitrary: ys)
  case Nil
  then show ?case by simp
next
  case (Cons x xs)
  from Cons.prems(1) obtain z zs where z: "f x = Inr z" and zs: "mapE f xs = Inr zs" and ys: "ys = z # zs"
    by (auto split: sum.splits)
  from Cons.prems(2) ys consider "y = z" | "y \<in> set zs" by auto
  then show ?case
  proof cases
    case 1
    with z show ?thesis by simp
  next
    case 2
    with Cons.IH zs show ?thesis by auto
  qed
qed

lemma stringOr_trimmed: "stringOr h p k d = Inr s \<Longrightarrow> trim s = s"
  by (auto simp: stringOr_def bindE_Inr_iff trim_idem)

lemma normalizeLink_trimmed: "normalizeLink h p = Inr s \<Longrightarrow> trim s = s"
  by (auto simp: normalizeLink_def bindE_Inr_iff trim_idem trim_Nil split: if_splits)

lemma normalizeTags_trimmed:
  assumes "normalizeTags h p = Inr ts" and "t \<in> set ts"
  shows "trim t = t \<and> t \<noteq> []"
proof -
  from assms(1) obtain v where v: "getProp p ''tags'' = Inr v"
    and r: "(case v of
         Value (JArr xs) \<Rightarrow>
           bindE (mapE (\<lambda>t. bindE (toStringJ h (stackDepth h) t) (\<lambda>s. Inr (trim s))) xs) (\<lambda>ss.
             Inr (filter (\<lambda>s. s \<noteq> []) ss))
       | _ \<Rightarrow> Inr []) = Inr ts"
    by (auto simp: normalizeTags_def bindE_Inr_iff)
  show ?thesis
  proof (cases "\<exists>xs. v = Value (JArr xs)")
    case True
    then obtain xs where "v = Value (JArr xs)" ..
    with r obtain ss where ss: "mapE (\<lambda>t. bindE (toStringJ h (stackDepth h) t) (\<lambda>s. Inr (trim s))) xs = Inr ss"
      and ts: "ts = filter (\<lambda>s. s \<noteq> []) ss"
      by (auto simp: bindE_Inr_iff)
    from ts assms(2) have "t \<in> set ss" and ne: "t \<noteq> []" by auto
    with ss obtain x where "bindE (toStringJ h (stackDepth h) x) (\<lambda>s. Inr (trim s)) = Inr t"
      by (blast dest: mapE_Inr_set)
    then have "trim t = t"
      by (auto simp: bindE_Inr_iff trim_idem)
    with ne show ?thesis by simp
  next
    case False
    with r have "ts = []"
      by (auto split: jsval.splits json.splits)
    with assms(2) show ?thesis by simp
  qed
qed

lemma normalizeProject_Inr_iff:
  "normalizeProject h p = Inr n \<longleftrightarrow>
     (\<exists>t sl de th tg ca fe da li.
        stringOr h p ''title'' [] = Inr t \<and> stringOr h p ''slug'' [] = Inr sl \<and>
        stringOr h p ''description'' [] = Inr de \<and> stringOr h p ''thumbnail'' [] = Inr th \<and>
        normalizeTags h p = Inr tg \<and> stringOr h p ''category'' ''Other'' = Inr ca \<and>
        getProp p ''featured'' = Inr fe \<and> stringOr h p ''date'' [] = Inr da \<and>
        normalizeLink h p = Inr li \<and>
        n = \<lparr> title = t, slug = sl, description = de, thumbnail = th, tags = tg,
              category = (if ca = [] then ''Other'' else ca),
              featured = truthy h fe, date = da, link = li \<rparr>)"
  unfolding normalizeProject_def bindE_Inr_iff by blast

lemma stringOr_JStr:
  "map_of kvs k = Some (JStr s) \<Longrightarrow>
     stringOr h (JObj kvs) k d = Inr (if s = [] then trim d else trim s)"
  by (simp add: stringOr_def bindE_simps)

lemma normalizeLink_JStr:
  "map_of kvs ''link'' = Some (JStr s) \<Longrightarrow> normalizeLink h (JObj kvs) = Inr (trim s)"
  by (simp add: normalizeLink_def bindE_simps trim_Nil)

lemma normalizeTags_JStr:
  "map_of kvs ''tags'' = Some (JArr (map JStr ts)) \<Longrightarrow>
     normalizeTags h (JObj kvs) = Inr (filter (\<lambda>s. s \<noteq> []) (map trim ts))"
proof -
  assume kv: "map_of kvs ''tags'' = Some (JArr (map JStr ts))"
  have "mapE (\<lambda>t. bindE (toStringJ h (stackDepth h) t) (\<lambda>s. Inr (trim s))) (map JStr ts) = Inr (map trim ts)"
    by (induction ts) (simp_all add: bindE_simps)
  then show ?thesis
    using kv by (simp add: normalizeTags_def bindE_simps)
qed

lemma normalizeProject_asRaw:
  "normalizeProject h (asRaw r) =
     Inr \<lparr> title = trim (title r), slug = trim (slug r), description = trim (description r),
           thumbnail = trim (thumbnail r),
           tags = filter (\<lambda>s. s \<noteq> []) (map trim (tags r)),
           category = (if category r = [] \<or> trim (category r) = [] then ''Other''
                       else trim (category r)),
           featured = featured r, date = trim (date r), link = trim (link r) \<rparr>"
proof -
  let ?kvs = "[(''title'', JStr (title r)), (''slug'', JStr (slug r)),
           (''description'', JStr (description r)), (''thumbnail'', JStr (thumbnail r)),
           (''tags'', JArr (map JStr (tags r))), (''category'', JStr (category r)),
           (''featured'', JBool (featured r)), (''date'', JStr (date r)),
           (''link'', JStr (link r))]"
  have raw: "asRaw r = JObj ?kvs" by (simp add: asRaw_def)
  have k1: "stringOr h (JObj ?kvs) ''title'' [] = Inr (trim (title r))"
    by (subst stringOr_JStr [where s = "title r"]) (simp_all add: trim_Nil)
  have k2: "stringOr h (JObj ?kvs) ''slug'' [] = Inr (trim (slug r))"
    by (subst stringOr_JStr [where s = "slug r"]) (simp_all add: trim_Nil)
  have k3: "stringOr h (JObj ?kvs) ''description'' [] = Inr (trim (description r))"
    by (subst stringOr_JStr [where s = "description r"]) (simp_all add: trim_Nil)
  have k4: "stringOr h (JObj ?kvs) ''thumbnail'' [] = Inr (trim (thumbnail r))"
    by (subst stringOr_JStr [where s = "thumbnail r"]) (simp_all add: trim_Nil)
  have k5: "normalizeTags h (JObj ?kvs) = Inr (filter (\<lambda>s. s \<noteq> []) (map trim (tags r)))"
    by (rule normalizeTags_JStr) simp
  have k6: "stringOr h (JObj ?kvs) ''category'' ''Other'' =
      Inr (if category r = [] then ''Other'' else trim (category r))"
    by (subst stringOr_JStr [where s = "category r"]) (simp_all add: trim_Other)
  have k7: "getProp (JObj ?kvs) ''featured'' = Inr (Value (JBool (featured r)))"
    by simp
  have k8: "stringOr h (JObj ?kvs) ''date'' [] = Inr (trim (date r))"
    by (subst stringOr_JStr [where s = "date r"]) (simp_all add: trim_Nil)
  have k9: "normalizeLink h (JObj ?kvs) = Inr (trim (link r))"
    by (rule normalizeLink_JStr) simp
  show ?thesis
    unfolding raw normalizeProject_def k1 k2 k3 k4 k5 k6 k7 k8 k9 bindE_simps
    by auto
qed

lemma stringOr_blank:
  "missingOrBlank raw k \<Longrightarrow> stringOr h raw k [] = Inr []"
  by (auto simp: missingOrBlank_def stringOr_def bindE_simps trim_Nil
      split: sum.splits jsval.splits json.splits)

lemma mapE_Inr_mem: "mapE f xs = Inr ys \<Longrightarrow> x \<in> set xs \<Longrightarrow> \<exists>y \<in> set ys. f x = Inr y"
proof (induction xs arbitrary: ys)
  case Nil
  then show ?case by simp
next
  case (Cons a xs)
  from Cons.prems(1) obtain z zs where z: "f a = Inr z" and zs: "mapE f xs = Inr zs" and ys: "ys = z # zs"
    by (auto split: sum.splits)
  from Cons.prems(2) consider "x = a" | "x \<in> set xs" by auto
  then show ?case
  proof cases
    case 1
    with z ys show ?thesis by simp
  next
    case 2
    with Cons.IH zs ys show ?thesis by auto
  qed
qed

lemma loadProjects_Inr_iff:
  "loadProjects h fetched = Inr ps \<longleftrightarrow>
     (\<exists>res data ns. fetched = Inr res \<and> ok res \<and> body res = Some data \<and>
        mapE (normalizeProject h) (case data of JArr xs \<Rightarrow> xs | _ \<Rightarrow> []) = Inr ns \<and>
        ps = filter (\<lambda>p. title p \<noteq> [] \<and> slug p \<noteq> []) ns)"
  by (cases fetched)
    (auto simp: loadProjects_def bindE_simps bindE_Inr_iff split: if_splits option.splits)

lemma normalizeProject_fields:
  assumes "normalizeProject h raw = Inr n"
  shows "[] \<notin> set (tags n)" and "category n \<noteq> []"
    and "stringOr h raw ''title'' [] = Inr (title n)"
    and "stringOr h raw ''slug'' [] = Inr (slug n)"
proof -
  from assms obtain t sl de th tg ca fe da li where
    f: "stringOr h raw ''title'' [] = Inr t" "stringOr h raw ''slug'' [] = Inr sl"
    and tg: "normalizeTags h raw = Inr tg"
    and n: "n = \<lparr> title = t, slug = sl, description = de, thumbnail = th, tags = tg,
              category = (if ca = [] then ''Other'' else ca),
              featured = truthy h fe, date = da, link = li \<rparr>"
    unfolding normalizeProject_Inr_iff by blast
  from tg show "[] \<notin> set (tags n)"
    by (auto simp: n dest: normalizeTags_trimmed)
  show "category n \<noteq> []" by (simp add: n)
  from f show "stringOr h raw ''title'' [] = Inr (title n)"
    and "stringOr h raw ''slug'' [] = Inr (slug n)"
    by (simp_all add: n)
qed

lemma elementStrings_Cons_iff:
  "(\<exists>ss. elementStrings h d (x # xs) = Inr ss) \<longleftrightarrow>
     (x = JNull \<or> (\<exists>s. toStringJ h d x = Inr s)) \<and> (\<exists>ss. elementStrings h d xs = Inr ss)"
proof (cases "x = JNull")
  case True
  then show ?thesis
    by (cases "elementStrings h d xs") simp_all
next
  case False
  then have e: "(case x of JNull \<Rightarrow> Inr [] | _ \<Rightarrow> toStringJ h d x) = toStringJ h d x"
    by (cases x) simp_all
  show ?thesis
    unfolding elementStrings.simps e using False
    by (cases "toStringJ h d x"; cases "elementStrings h d xs") simp_all
qed

lemma elementStrings_iff:
  assumes "\<And>x. x \<in> set xs \<Longrightarrow> (\<exists>s. toStringJ h d x = Inr s) \<longleftrightarrow> convertible d x"
  shows "(\<exists>ss. elementStrings h d xs = Inr ss) \<longleftrightarrow> convertibleAll d xs"
  using assms
proof (induction xs)
  case Nil
  show ?case by simp
next
  case (Cons x xs)
  have hd: "(x = JNull \<or> (\<exists>s. toStringJ h d x = Inr s)) \<longleftrightarrow> convertible d x"
    using Cons.prems [of x] by (cases "x = JNull") simp_all
  have tl: "(\<exists>ss. elementStrings h d xs = Inr ss) \<longleftrightarrow> convertibleAll d xs"
    by (rule Cons.IH) (simp add: Cons.prems)
  show ?case
    unfolding elementStrings_Cons_iff hd tl by simp
qed

lemma toString_iff: "(\<exists>s. toStringJ h d v = Inr s) \<longleftrightarrow> convertible d v"
proof (induction v arbitrary: d)
  case (JArr xs)
  show ?case
  proof (cases "d = 0")
    case True
    then show ?thesis by simp
  next
    case False
    have "(\<exists>ss. elementStrings h (d - 1) xs = Inr ss) \<longleftrightarrow> convertibleAll (d - 1) xs"
      by (rule elementStrings_iff) (rule JArr.IH)
    with False show ?thesis
      by (cases "elementStrings h (d - 1) xs") simp_all
  qed
qed simp_all

lemma elementStrings_error:
  assumes "\<forall>x \<in> set xs. \<forall>e. toStringJ h d x = Inl e \<longrightarrow> e = TypeError \<or> e = RangeError"
    and "elementStrings h d xs = Inl e"
  shows "e = TypeError \<or> e = RangeError"
  using assms
proof (induction xs)
  case Nil
  then show ?case by simp
next
  case (Cons x xs)
  from Cons.prems(1) have rest:
    "\<forall>x \<in> set xs. \<forall>e. toStringJ h d x = Inl e \<longrightarrow> e = TypeError \<or> e = RangeError"
    by simp
  show ?case
  proof (cases "x = JNull")
    case True
    with Cons.prems(2) have "elementStrings h d xs = Inl e"
      by (cases "elementStrings h d xs") simp_all
    with rest show ?thesis by (rule Cons.IH)
  next
    case False
    then have e: "(case x of JNull \<Rightarrow> Inr [] | _ \<Rightarrow> toStringJ h d x) = toStringJ h d x"
      by (cases x) simp_all
    from Cons.prems(2) have "toStringJ h d x = Inl e \<or> elementStrings h d xs = Inl e"
      unfolding elementStrings.simps e
      by (cases "toStringJ h d x"; cases "elementStrings h d xs") simp_all
    then show ?thesis
    proof
      assume "toStringJ h d x = Inl e"
      with Cons.prems(1) show ?thesis by simp
    next
      assume "elementStrings h d xs = Inl e"
      with rest show ?thesis by (rule Cons.IH)
    qed
  qed
qed

lemma toString_error: "toStringJ h d v = Inl e \<Longrightarrow> e = TypeError \<or> e = RangeError"
proof (induction v arbitrary: d e)
  case (JArr xs)
  show ?case
  proof (cases "d = 0")
    case True
    with JArr.prems show ?thesis by simp
  next
    case False
    with JArr.prems have "elementStrings h (d - 1) xs = Inl e"
      by (cases "elementStrings h (d - 1) xs") simp_all
    moreover from JArr.IH have
      "\<forall>x \<in> set xs. \<forall>e. toStringJ h (d - 1) x = Inl e \<longrightarrow> e = TypeError \<or> e = RangeError"
      by blast
    ultimately show ?thesis
      by (rule elementStrings_error [rotated])
  qed
next
  case (JObj kvs)
  then show ?case by (simp split: if_splits)
qed simp_all

lemma convertible_falsy: "\<not> truthy h (Value v) \<Longrightarrow> convertible d v"
  by (cases v) simp_all

lemma getProp_Inr: "raw \<noteq> JNull \<Longrightarrow> \<exists>v. getProp raw k = Inr v"
  by (cases raw) simp_all

lemma stringOr_Inr_iff:
  assumes "raw \<noteq> JNull"
  shows "(\<exists>s. stringOr h raw k d = Inr s) \<longleftrightarrow> fieldConverts h raw k"
proof -
  from assms obtain v where v: "getProp raw k = Inr v"
    using getProp_Inr by blast
  show ?thesis
  proof (cases v)
    case (Value x)
    show ?thesis
    proof (cases "truthy h v")
      case True
      with v Value show ?thesis
        using toString_iff [of h "stackDepth h" x]
        by (auto simp: stringOr_def bindE_simps bindE_Inr_iff fieldConverts_def)
    next
      case False
      with Value have "convertible (stackDepth h) x"
        by (simp add: convertible_falsy)
      with v Value False show ?thesis
        by (simp add: stringOr_def bindE_simps fieldConverts_def)
    qed
  qed (use v in \<open>simp_all add: stringOr_def bindE_simps fieldConverts_def\<close>)
qed

lemma stringOr_default:
  "stringOr h raw k d = Inr s \<Longrightarrow> falsyField h raw k \<Longrightarrow> s = trim d"
  by (auto simp: stringOr_def bindE_Inr_iff falsyField_def)

lemma normalizeLink_Inr_iff:
  assumes "raw \<noteq> JNull"
  shows "(\<exists>s. normalizeLink h raw = Inr s) \<longleftrightarrow> fieldConverts h raw ''link''"
proof -
  from assms obtain v where v: "getProp raw ''link'' = Inr v"
    using getProp_Inr by blast
  show ?thesis
  proof (cases v)
    case (Value x)
    show ?thesis
    proof (cases "truthy h v")
      case True
      with v Value show ?thesis
        using toString_iff [of h "stackDepth h" x]
        by (auto simp: normalizeLink_def bindE_simps bindE_Inr_iff fieldConverts_def)
    next
      case False
      with Value have "convertible (stackDepth h) x"
        by (simp add: convertible_falsy)
      with v Value False show ?thesis
        by (simp add: normalizeLink_def bindE_simps fieldConverts_def)
    qed
  qed (use v in \<open>simp_all add: normalizeLink_def bindE_simps fieldConverts_def\<close>)
qed

lemma normalizeLink_default:
  "normalizeLink h raw = Inr s \<Longrightarrow> falsyField h raw ''link'' \<Longrightarrow> s = []"
  by (auto simp: normalizeLink_def bindE_Inr_iff falsyField_def)

lemma mapE_trimmed_iff:
  "(\<exists>ss. mapE (\<lambda>t. bindE (toStringJ h d t) (\<lambda>s. Inr (trim s))) ts = Inr ss) \<longleftrightarrow>
     convertibleAll d ts"
proof (induction ts)
  case Nil
  show ?case by simp
next
  case (Cons t ts)
  show ?case
    using Cons.IH toString_iff [of h d t]
    by (cases "toStringJ h d t";
        cases "mapE (\<lambda>t. bindE (toStringJ h d t) (\<lambda>s. Inr (trim s))) ts")
      (auto simp: bindE_simps)
qed

lemma normalizeTags_Inr_iff:
  assumes "raw \<noteq> JNull"
  shows "(\<exists>tg. normalizeTags h raw = Inr tg) \<longleftrightarrow> tagsConvert h raw"
proof -
  from assms obtain v where v: "getProp raw ''tags'' = Inr v"
    using getProp_Inr by blast
  show ?thesis
  proof (cases "\<exists>ts. v = Value (JArr ts)")
    case True
    then obtain ts where ts: "v = Value (JArr ts)" ..
    with v show ?thesis
      using mapE_trimmed_iff [of h "stackDepth h" ts]
      by (auto simp: normalizeTags_def bindE_simps bindE_Inr_iff tagsConvert_def)
  next
    case False
    with v show ?thesis
      by (auto simp: normalizeTags_def bindE_simps tagsConvert_def
          split: jsval.splits json.splits)
  qed
qed

lemma normalizeTags_default:
  assumes "normalizeTags h raw = Inr tg"
    and "\<forall>ts. getProp raw ''tags'' \<noteq> Inr (Value (JArr ts))"
  shows "tg = []"
proof -
  from assms(1) obtain v where v: "getProp raw ''tags'' = Inr v"
    and r: "(case v of
         Value (JArr ts) \<Rightarrow>
           bindE (mapE (\<lambda>t. bindE (toStringJ h (stackDepth h) t) (\<lambda>s. Inr (trim s))) ts) (\<lambda>ss.
             Inr (filter (\<lambda>s. s \<noteq> []) ss))
       | _ \<Rightarrow> Inr []) = Inr tg"
    by (auto simp: normalizeTags_def bindE_Inr_iff)
  from assms(2) v have "\<forall>ts. v \<noteq> Value (JArr ts)" by simp
  with r show ?thesis
    by (cases v) (auto split: json.splits)
qed

lemma normalizeProject_null: "normalizeProject h JNull = Inl TypeError"
  by (simp add: normalizeProject_def stringOr_def bindE_simps)

lemma normalizable_iff:
  "normalizable h raw \<longleftrightarrow>
     raw \<noteq> JNull \<and> fieldConverts h raw ''title'' \<and> fieldConverts h raw ''slug'' \<and>
     fieldConverts h raw ''description'' \<and> fieldConverts h raw ''thumbnail'' \<and>
     fieldConverts h raw ''category'' \<and> fieldConverts h raw ''date'' \<and>
     fieldConverts h raw ''link'' \<and> tagsConvert h raw"
  by (simp add: normalizable_def textKeys_def)

lemma normalizeProject_returns_iff:
  "(\<exists>r. normalizeProject h raw = Inr r) \<longleftrightarrow> normalizable h raw"
proof (cases "raw = JNull")
  case True
  then show ?thesis
    by (simp add: normalizeProject_null normalizable_def)
next
  case False
  have "(\<exists>r. normalizeProject h raw = Inr r) \<longleftrightarrow>
      (\<exists>t. stringOr h raw ''title'' [] = Inr t) \<and> (\<exists>sl. stringOr h raw ''slug'' [] = Inr sl) \<and>
      (\<exists>de. stringOr h raw ''description'' [] = Inr de) \<and>
      (\<exists>th. stringOr h raw ''thumbnail'' [] = Inr th) \<and>
      (\<exists>tg. normalizeTags h raw = Inr tg) \<and>
      (\<exists>ca. stringOr h raw ''category'' ''Other'' = Inr ca) \<and>
      (\<exists>fe. getProp raw ''featured'' = Inr fe) \<and>
      (\<exists>da. stringOr h raw ''date'' [] = Inr da) \<and> (\<exists>li. normalizeLink h raw = Inr li)"
    unfolding normalizeProject_Inr_iff by blast
  then show ?thesis
    unfolding normalizable_iff stringOr_Inr_iff [OF False] normalizeLink_Inr_iff [OF False]
      normalizeTags_Inr_iff [OF False]
    using False getProp_Inr [OF False, of "''featured''"] by blast
qed

lemma mapE_Inl: "mapE f xs = Inl e \<Longrightarrow> \<exists>x \<in> set xs. f x = Inl e"
  by (induction xs) (auto split: sum.splits)

lemma getProp_error: "getProp raw k = Inl e \<Longrightarrow> e = TypeError \<or> e = RangeError"
  by (cases raw) simp_all

lemma String_error: "String h v = Inl e \<Longrightarrow> e = TypeError \<or> e = RangeError"
  by (cases v) (auto dest: toString_error)

lemma bindE_error:
  assumes "bindE m f = Inl e"
    and "\<And>e. m = Inl e \<Longrightarrow> e = TypeError \<or> e = RangeError"
    and "\<And>x e. f x = Inl e \<Longrightarrow> e = TypeError \<or> e = RangeError"
  shows "e = TypeError \<or> e = RangeError"
  using assms by (cases m) (simp_all add: bindE_def)

lemma stringOr_error: "stringOr h raw k d = Inl e \<Longrightarrow> e = TypeError \<or> e = RangeError"
  unfolding stringOr_def
  apply (erule bindE_error, erule getProp_error)
  apply (erule bindE_error)
   apply (auto dest: String_error split: if_splits)
  done

lemma normalizeLink_error: "normalizeLink h raw = Inl e \<Longrightarrow> e = TypeError \<or> e = RangeError"
  unfolding normalizeLink_def
  apply (erule bindE_error, erule getProp_error)
  apply (auto simp: bindE_Inl_iff dest: String_error split: if_splits)
  done

lemma trimmedString_error:
  "bindE (toStringJ h d t) (\<lambda>s. Inr (trim s)) = Inl e \<Longrightarrow> e = TypeError \<or> e = RangeError"
  by (erule bindE_error) (auto dest: toString_error)

lemma normalizeTags_error: "normalizeTags h raw = Inl e \<Longrightarrow> e = TypeError \<or> e = RangeError"
proof -
  assume a: "normalizeTags h raw = Inl e"
  show ?thesis
  proof (rule bindE_error [OF a [unfolded normalizeTags_def]])
    fix e assume "getProp raw ''tags'' = Inl e"
    then show "e = TypeError \<or> e = RangeError" by (rule getProp_error)
  next
    fix v e
    assume b: "(case v of
         Value (JArr ts) \<Rightarrow>
           bindE (mapE (\<lambda>t. bindE (toStringJ h (stackDepth h) t) (\<lambda>s. Inr (trim s))) ts) (\<lambda>ss.
             Inr (filter (\<lambda>s. s \<noteq> []) ss))
       | _ \<Rightarrow> Inr []) = Inl e"
    then obtain ts where
      "mapE (\<lambda>t. bindE (toStringJ h (stackDepth h) t) (\<lambda>s. Inr (trim s))) ts = Inl e"
      by (auto simp: bindE_Inl_iff split: jsval.splits json.splits)
    then obtain t where "bindE (toStringJ h (stackDepth h) t) (\<lambda>s. Inr (trim s)) = Inl e"
      by (blast dest: mapE_Inl)
    then show "e = TypeError \<or> e = RangeError" by (rule trimmedString_error)
  qed
qed

lemma normalizeProject_error:
  "normalizeProject h raw = Inl e \<Longrightarrow> e = TypeError \<or> e = RangeError"
  unfolding normalizeProject_def
  apply (erule bindE_error,
      erule stringOr_error normalizeTags_error normalizeLink_error getProp_error)+
  apply simp
  done

lemma toStringJ_nest:
  "d < k \<Longrightarrow> toStringJ h d (nest k v) = Inl RangeError"
proof (induction d arbitrary: k)
  case 0
  then obtain j where "k = Suc j" by (cases k) auto
  then show ?case by simp
next
  case (Suc d)
  then obtain j where k: "k = Suc j" and j: "d < j" by (cases k) auto
  from j obtain i where "j = Suc i" by (cases j) auto
  then have "nest j v = JArr [nest i v]" by simp
  with Suc.IH [OF j] k show ?case by simp
qed

section \<open>Normalizer: idempotence\<close>

text \<open>
  Claim C8. Normalization is idempotent: for every raw record that \<^verbatim>\<open>normalizeProject\<close>
  turns into a record, normalizing that record again (read back as a raw value) gives the
  same record, field by field.
\<close>

theorem normalizeProject_idempotent:
  "normalizeProject h r = Inr n \<Longrightarrow> normalizeProject h (asRaw n) = Inr n"
proof -
  assume "normalizeProject h r = Inr n"
  then obtain t sl de th tg ca fe da li where
    f: "stringOr h r ''title'' [] = Inr t" "stringOr h r ''slug'' [] = Inr sl"
       "stringOr h r ''description'' [] = Inr de" "stringOr h r ''thumbnail'' [] = Inr th"
       "stringOr h r ''category'' ''Other'' = Inr ca" "stringOr h r ''date'' [] = Inr da"
    and tg: "normalizeTags h r = Inr tg" and li: "normalizeLink h r = Inr li"
    and n: "n = \<lparr> title = t, slug = sl, description = de, thumbnail = th, tags = tg,
              category = (if ca = [] then ''Other'' else ca),
              featured = truthy h fe, date = da, link = li \<rparr>"
    unfolding normalizeProject_Inr_iff by blast
  from f have s: "trim t = t" "trim sl = sl" "trim de = de" "trim th = th" "trim ca = ca"
      "trim da = da"
    by (simp_all add: stringOr_trimmed)
  from li have l: "trim li = li"
    by (rule normalizeLink_trimmed)
  from tg have "\<forall>x \<in> set tg. trim x = x \<and> x \<noteq> []"
    by (blast dest: normalizeTags_trimmed)
  then have "map trim tg = tg" and "filter (\<lambda>s. s \<noteq> []) tg = tg"
    by (simp_all add: map_idI)
  then have g: "filter (\<lambda>s. s \<noteq> []) (map trim tg) = tg"
    by simp
  have c: "(if category n = [] \<or> trim (category n) = [] then ''Other'' else trim (category n))
      = category n"
    using s(5) by (simp add: n trim_Other)
  show ?thesis
    unfolding normalizeProject_asRaw c
    by (simp add: n s l g)
qed

theorem normalizeProject_idempotent_witness:
  "normalizeProject integerHost
      (JObj [(''title'', JStr '' Site ''), (''slug'', JNum 42), (''tags'', JArr [JStr '' a '', JStr '' '', JNull]),
             (''category'', JStr ''  ''), (''featured'', JNum 1)])
     = Inr \<lparr> title = ''Site'', slug = ''42'', description = [], thumbnail = [],
             tags = [''a'', ''null''], category = ''Other'', featured = True, date = [], link = [] \<rparr> \<and>
   normalizeProject integerHost
      (asRaw \<lparr> title = ''Site'', slug = ''42'', description = [], thumbnail = [],
             tags = [''a'', ''null''], category = ''Other'', featured = True, date = [], link = [] \<rparr>)
     = Inr \<lparr> title = ''Site'', slug = ''42'', description = [], thumbnail = [],
             tags = [''a'', ''null''], category = ''Other'', featured = True, date = [], link = [] \<rparr>"
proof -
  have run: "normalizeProject integerHost
      (JObj [(''title'', JStr '' Site ''), (''slug'', JNum 42), (''tags'', JArr [JStr '' a '', JStr '' '', JNull]),
             (''category'', JStr ''  ''), (''featured'', JNum 1)])
     = Inr \<lparr> title = ''Site'', slug = ''42'', description = [], thumbnail = [],
             tags = [''a'', ''null''], category = ''Other'', featured = True, date = [], link = [] \<rparr>"
    by code_simp
  show ?thesis
    using run normalizeProject_idempotent [OF run]
    by - (intro conjI; assumption)
qed

section \<open>Loader: invariants of the output\<close>

text \<open>
  Claim C4. For every fetched document, every record of the list \<^verbatim>\<open>loadProjects\<close>
  returns has a non-empty title and a non-empty slug, no empty string among its tags, and
  a non-empty category. Every raw record of the document has a normalization; the
  normalization of one whose title or slug is missing or empty after trimming is not in
  the output, and one with both non-empty is.
\<close>

theorem loadProjects_invariants:
  "loadProjects h fetched = Inr ps \<Longrightarrow>
     (\<forall>p \<in> set ps. title p \<noteq> [] \<and> slug p \<noteq> [] \<and> [] \<notin> set (tags p) \<and> category p \<noteq> []) \<and>
     (\<forall>res raws. fetched = Inr res \<and> body res = Some (JArr raws) \<longrightarrow>
        (\<forall>raw \<in> set raws. \<exists>n. normalizeProject h raw = Inr n \<and>
           (missingOrBlank raw ''title'' \<or> missingOrBlank raw ''slug'' \<longrightarrow> n \<notin> set ps) \<and>
           (title n \<noteq> [] \<and> slug n \<noteq> [] \<longrightarrow> n \<in> set ps)))"
proof -
  assume "loadProjects h fetched = Inr ps"
  then obtain res data ns where fetched: "fetched = Inr res" and "ok res"
    and data: "body res = Some data"
    and ns: "mapE (normalizeProject h) (case data of JArr xs \<Rightarrow> xs | _ \<Rightarrow> []) = Inr ns"
    and ps: "ps = filter (\<lambda>p. title p \<noteq> [] \<and> slug p \<noteq> []) ns"
    unfolding loadProjects_Inr_iff by blast
  have inv: "title p \<noteq> [] \<and> slug p \<noteq> [] \<and> [] \<notin> set (tags p) \<and> category p \<noteq> []"
    if "p \<in> set ps" for p
  proof -
    from that ps have "p \<in> set ns" and keep: "title p \<noteq> []" "slug p \<noteq> []" by auto
    with ns obtain raw where "normalizeProject h raw = Inr p"
      by (blast dest: mapE_Inr_set)
    then have "[] \<notin> set (tags p)" and "category p \<noteq> []"
      by (rule normalizeProject_fields)+
    with keep show ?thesis by simp
  qed
  have excl: "\<exists>n. normalizeProject h raw = Inr n \<and>
           (missingOrBlank raw ''title'' \<or> missingOrBlank raw ''slug'' \<longrightarrow> n \<notin> set ps) \<and>
           (title n \<noteq> [] \<and> slug n \<noteq> [] \<longrightarrow> n \<in> set ps)"
    if "body res = Some (JArr raws)" and "raw \<in> set raws" for raws raw
  proof -
    from that data ns have "mapE (normalizeProject h) raws = Inr ns" by simp
    with that(2) obtain n where mem: "n \<in> set ns" and n: "normalizeProject h raw = Inr n"
      by (blast dest: mapE_Inr_mem)
    have "n \<notin> set ps" if "missingOrBlank raw ''title'' \<or> missingOrBlank raw ''slug''"
    proof -
      from that normalizeProject_fields(3,4) [OF n] have "title n = [] \<or> slug n = []"
        by (auto simp: stringOr_blank)
      with inv show ?thesis by blast
    qed
    moreover have "n \<in> set ps" if "title n \<noteq> [] \<and> slug n \<noteq> []"
      using that mem ps by simp
    ultimately show ?thesis using n by blast
  qed
  from inv excl fetched show ?thesis by blast
qed

theorem loadProjects_invariants_witness:
  "loadProjects integerHost
     (Inr \<lparr> ok = True,
            body = Some (JArr [JObj [(''title'', JStr '' A ''), (''slug'', JStr ''a''),
                                     (''tags'', JArr [JStr '' x '', JStr [], JStr ''  ''])],
                               JObj [(''title'', JStr ''  ''), (''slug'', JStr ''b'')],
                               JObj [(''title'', JStr ''C'')],
                               JNum 5]) \<rparr>)
     = Inr [\<lparr> title = ''A'', slug = ''a'', description = [], thumbnail = [], tags = [''x''],
              category = ''Other'', featured = False, date = [], link = [] \<rparr>]"
proof -
  have run: "loadProjects integerHost
     (Inr \<lparr> ok = True,
            body = Some (JArr [JObj [(''title'', JStr '' A ''), (''slug'', JStr ''a''),
                                     (''tags'', JArr [JStr '' x '', JStr [], JStr ''  ''])],
                               JObj [(''title'', JStr ''  ''), (''slug'', JStr ''b'')],
                               JObj [(''title'', JStr ''C'')],
                               JNum 5]) \<rparr>)
     = Inr [\<lparr> title = ''A'', slug = ''a'', description = [], thumbnail = [], tags = [''x''],
              category = ''Other'', featured = False, date = [], link = [] \<rparr>]"
    by code_simp
  show ?thesis
    using run loadProjects_invariants [OF run]
    by - assumption
qed

section \<open>Normalizer: failure and defaults\<close>

text \<open>
  Claim C3, as the specification words it, fails in four ways. \<^verbatim>\<open>normalizeProject(null)\<close>
  reads \<^verbatim>\<open>p.title\<close> of \<^verbatim>\<open>null\<close> and throws a TypeError. A title that is an object with
  an own property \<^verbatim>\<open>toString\<close> makes \<^verbatim>\<open>String\<close> throw a TypeError. A title of arrays
  nested 5000 deep exhausts the call stack of \<^verbatim>\<open>String\<close>: a RangeError. And a title of
  the wrong type that is truthy, the number 5, is not replaced by the default: it becomes
  the string \<^verbatim>\<open>5\<close>.
\<close>

theorem normalizeProject_spec_counterexample:
  "normalizeProject integerHost JNull = Inl TypeError \<and>
   normalizeProject integerHost (JObj [(''title'', JObj [(''toString'', JNum 1)])])
     = Inl TypeError \<and>
   normalizeProject integerHost (JObj [(''title'', nest 5000 (JStr ''x''))]) = Inl RangeError \<and>
   normalizeProject integerHost (JObj [(''title'', JNum 5)])
     = Inr \<lparr> title = ''5'', slug = [], description = [], thumbnail = [], tags = [],
             category = ''Other'', featured = False, date = [], link = [] \<rparr>"
proof -
  have null: "normalizeProject integerHost JNull = Inl TypeError"
    by (rule normalizeProject_null)
  have obj: "normalizeProject integerHost (JObj [(''title'', JObj [(''toString'', JNum 1)])])
      = Inl TypeError"
    by (simp add: normalizeProject_def stringOr_def bindE_simps)
  have "(5000::nat) = Suc 4999" by simp
  then have n: "nest 5000 (JStr ''x'' :: int json) = JArr [nest 4999 (JStr ''x'')]"
    by (simp only: nest.simps)
  have "toStringJ integerHost (stackDepth integerHost) (nest 5000 (JStr ''x'')) = Inl RangeError"
    by (rule toStringJ_nest) (simp add: integerHost_def)
  then have "String integerHost (Value (JArr [nest 4999 (JStr ''x'')])) = Inl RangeError"
    by (simp only: n String.simps)
  then have "stringOr integerHost (JObj [(''title'', JArr [nest 4999 (JStr ''x'')])]) ''title'' []
      = Inl RangeError"
    by (simp add: stringOr_def bindE_simps del: String.simps)
  then have deep: "normalizeProject integerHost (JObj [(''title'', nest 5000 (JStr ''x''))])
      = Inl RangeError"
    by (simp only: n normalizeProject_def bindE_simps)
  have num: "normalizeProject integerHost (JObj [(''title'', JNum 5)])
     = Inr \<lparr> title = ''5'', slug = [], description = [], thumbnail = [], tags = [],
             category = ''Other'', featured = False, date = [], link = [] \<rparr>"
    by code_simp
  from null obj deep num show ?thesis by (intro conjI)
qed

text \<open>
  Claim C3, amended. The normalizer raises no error exactly on the raw values that are not
  \<^verbatim>\<open>null\<close> and in which none of the fields \<^verbatim>\<open>title\<close>, \<^verbatim>\<open>slug\<close>,
  \<^verbatim>\<open>description\<close>, \<^verbatim>\<open>thumbnail\<close>, \<^verbatim>\<open>category\<close>, \<^verbatim>\<open>date\<close>, \<^verbatim>\<open>link\<close>, nor an
  element of an array \<^verbatim>\<open>tags\<close>, is or holds through arrays an object with an own
  property \<^verbatim>\<open>toString\<close>, or nests arrays deeper than the call stack allows. On these it
  returns a record in which every field whose raw value is missing, \<^verbatim>\<open>null\<close> or
  otherwise falsy has its default, \<^verbatim>\<open>tags\<close> is empty when the raw value is not an
  array, and \<^verbatim>\<open>featured\<close> is the truthiness of the raw value. On every other raw value
  it throws a TypeError or a RangeError.
\<close>

theorem normalizeProject_defaults:
  "(normalizable h raw \<longrightarrow>
      (\<exists>r. normalizeProject h raw = Inr r \<and>
         (falsyField h raw ''title'' \<longrightarrow> title r = []) \<and>
         (falsyField h raw ''slug'' \<longrightarrow> slug r = []) \<and>
         (falsyField h raw ''description'' \<longrightarrow> description r = []) \<and>
         (falsyField h raw ''thumbnail'' \<longrightarrow> thumbnail r = []) \<and>
         ((\<forall>ts. getProp raw ''tags'' \<noteq> Inr (Value (JArr ts))) \<longrightarrow> tags r = []) \<and>
         (falsyField h raw ''category'' \<longrightarrow> category r = ''Other'') \<and>
         (featured r \<longleftrightarrow> \<not> falsyField h raw ''featured'') \<and>
         (falsyField h raw ''date'' \<longrightarrow> date r = []) \<and>
         (falsyField h raw ''link'' \<longrightarrow> link r = []))) \<and>
   (\<not> normalizable h raw \<longrightarrow>
      normalizeProject h raw = Inl TypeError \<or> normalizeProject h raw = Inl RangeError)"
proof -
  have returns: "\<exists>r. normalizeProject h raw = Inr r \<and>
         (falsyField h raw ''title'' \<longrightarrow> title r = []) \<and>
         (falsyField h raw ''slug'' \<longrightarrow> slug r = []) \<and>
         (falsyField h raw ''description'' \<longrightarrow> description r = []) \<and>
         (falsyField h raw ''thumbnail'' \<longrightarrow> thumbnail r = []) \<and>
         ((\<forall>ts. getProp raw ''tags'' \<noteq> Inr (Value (JArr ts))) \<longrightarrow> tags r = []) \<and>
         (falsyField h raw ''category'' \<longrightarrow> category r = ''Other'') \<and>
         (featured r \<longleftrightarrow> \<not> falsyField h raw ''featured'') \<and>
         (falsyField h raw ''date'' \<longrightarrow> date r = []) \<and>
         (falsyField h raw ''link'' \<longrightarrow> link r = [])"
    if "normalizable h raw"
  proof -
    from that obtain r where r: "normalizeProject h raw = Inr r"
      using normalizeProject_returns_iff by blast
    then obtain t sl de th tg ca fe da li where
      f: "stringOr h raw ''title'' [] = Inr t" "stringOr h raw ''slug'' [] = Inr sl"
         "stringOr h raw ''description'' [] = Inr de" "stringOr h raw ''thumbnail'' [] = Inr th"
         "stringOr h raw ''category'' ''Other'' = Inr ca" "stringOr h raw ''date'' [] = Inr da"
      and tg: "normalizeTags h raw = Inr tg" and fe: "getProp raw ''featured'' = Inr fe"
      and li: "normalizeLink h raw = Inr li"
      and n: "r = \<lparr> title = t, slug = sl, description = de, thumbnail = th, tags = tg,
                category = (if ca = [] then ''Other'' else ca),
                featured = truthy h fe, date = da, link = li \<rparr>"
      unfolding normalizeProject_Inr_iff by blast
    have "falsyField h raw ''title'' \<longrightarrow> title r = []"
      using stringOr_default [OF f(1)] by (simp add: n trim_Nil)
    moreover have "falsyField h raw ''slug'' \<longrightarrow> slug r = []"
      using stringOr_default [OF f(2)] by (simp add: n trim_Nil)
    moreover have "falsyField h raw ''description'' \<longrightarrow> description r = []"
      using stringOr_default [OF f(3)] by (simp add: n trim_Nil)
    moreover have "falsyField h raw ''thumbnail'' \<longrightarrow> thumbnail r = []"
      using stringOr_default [OF f(4)] by (simp add: n trim_Nil)
    moreover have "(\<forall>ts. getProp raw ''tags'' \<noteq> Inr (Value (JArr ts))) \<longrightarrow> tags r = []"
      using normalizeTags_default [OF tg] by (simp add: n)
    moreover have "falsyField h raw ''category'' \<longrightarrow> category r = ''Other''"
      using stringOr_default [OF f(5)] by (auto simp: n trim_Other)
    moreover have "featured r \<longleftrightarrow> \<not> falsyField h raw ''featured''"
      by (simp add: n falsyField_def fe)
    moreover have "falsyField h raw ''date'' \<longrightarrow> date r = []"
      using stringOr_default [OF f(6)] by (simp add: n trim_Nil)
    moreover have "falsyField h raw ''link'' \<longrightarrow> link r = []"
      using normalizeLink_default [OF li] by (simp add: n)
    ultimately show ?thesis using r by blast
  qed
  have throws: "normalizeProject h raw = Inl TypeError \<or> normalizeProject h raw = Inl RangeError"
    if "\<not> normalizable h raw"
  proof (cases "normalizeProject h raw")
    case (Inl e)
    then have "e = TypeError \<or> e = RangeError" by (rule normalizeProject_error)
    with Inl show ?thesis by auto
  next
    case (Inr r)
    with that show ?thesis
      using normalizeProject_returns_iff [of h raw] by blast
  qed
  from returns throws show ?thesis by blast
qed

theorem normalizeProject_defaults_witness:
  "normalizable integerHost
     (JObj [(''title'', JNull), (''slug'', JNum 0), (''tags'', JStr ''x''),
            (''category'', JBool False), (''featured'', JObj [(''toString'', JNum 1)]),
            (''extra'', JObj [(''toString'', JNull)])]) \<and>
   normalizeProject integerHost
     (JObj [(''title'', JNull), (''slug'', JNum 0), (''tags'', JStr ''x''),
            (''category'', JBool False), (''featured'', JObj [(''toString'', JNum 1)]),
            (''extra'', JObj [(''toString'', JNull)])])
     = Inr \<lparr> title = [], slug = [], description = [], thumbnail = [], tags = [],
             category = ''Other'', featured = True, date = [], link = [] \<rparr> \<and>
   \<not> normalizable integerHost JNull \<and>
   normalizeProject integerHost JNull = Inl TypeError"
proof -
  let ?raw = "JObj [(''title'', JNull), (''slug'', JNum 0), (''tags'', JStr ''x''),
            (''category'', JBool False), (''featured'', JObj [(''toString'', JNum 1)]),
            (''extra'', JObj [(''toString'', JNull)])] :: int json"
  have a: "normalizable integerHost ?raw"
    by (simp add: normalizable_def textKeys_def fieldConverts_def tagsConvert_def)
  have c: "normalizeProject integerHost ?raw
     = Inr \<lparr> title = [], slug = [], description = [], thumbnail = [], tags = [],
             category = ''Other'', featured = True, date = [], link = [] \<rparr>"
    by code_simp
  have d: "\<not> normalizable integerHost JNull"
    by (simp add: normalizable_def)
  have e: "normalizeProject integerHost JNull = Inl TypeError"
    by (rule normalizeProject_null)
  show ?thesis
    using a c d e normalizeProject_defaults [of integerHost ?raw]
      normalizeProject_defaults [of integerHost JNull]
    by - (intro conjI; assumption)
qed

section \<open>Loader: failure\<close>



text \<open>
  On a success status the loader can still fail, with errors of other kinds: a TypeError
  from the normalizer on a \<^verbatim>\<open>null\<close> element, a SyntaxError on a body that is not JSON.
\<close>

lemma loadProjects_other_failures:
  "loadProjects integerHost (Inr \<lparr> ok = True, body = Some (JArr [JNull]) \<rparr>) = Inl TypeError \<and>
   loadProjects integerHost (Inr \<lparr> ok = True, body = None \<rparr>) = Inl SyntaxError"
  by (simp add: loadProjects_def normalizeProject_def stringOr_def bindE_simps)

section \<open>Facts about the sort\<close>

lemma consistent_refl: "consistent cmp \<Longrightarrow> cmp x x = 0"
  by (simp add: consistent_def)

lemma consistent_sgn: "consistent cmp \<Longrightarrow> sgn (cmp x y) = - sgn (cmp y x)"
  unfolding consistent_def by blast

lemma consistent_flip: "consistent cmp \<Longrightarrow> 0 < cmp x y \<Longrightarrow> cmp y x < 0"
proof -
  assume c: "consistent cmp" and p: "0 < cmp x y"
  from p have "sgn (cmp x y) = 1" by simp
  with consistent_sgn [OF c, of x y] have "sgn (cmp y x) = - 1" by linarith
  then show ?thesis by (simp only: sgn_1_neg)
qed

lemma consistent_sym: "consistent cmp \<Longrightarrow> cmp x y = 0 \<Longrightarrow> cmp y x = 0"
proof -
  assume c: "consistent cmp" and p: "cmp x y = 0"
  from p have "sgn (cmp x y) = 0" by simp
  with consistent_sgn [OF c, of x y] have "sgn (cmp y x) = 0" by linarith
  then show ?thesis by (simp only: sgn_0_0)
qed

lemma consistent_trans: "consistent cmp \<Longrightarrow> cmp x y \<le> 0 \<Longrightarrow> cmp y z \<le> 0 \<Longrightarrow> cmp x z \<le> 0"
  unfolding consistent_def by blast

lemma consistent_equiv:
  assumes c: "consistent cmp" and "cmp a x = 0" and "cmp a y = 0"
  shows "cmp x y = 0"
proof -
  from assms have xa: "cmp x a = 0" and ya: "cmp y a = 0"
    by (simp_all add: consistent_sym)
  from c xa assms(3) have le: "cmp x y \<le> 0"
    by (auto intro: consistent_trans [where y = a])
  from c ya assms(2) have ge: "cmp y x \<le> 0"
    by (auto intro: consistent_trans [where y = a])
  show ?thesis
  proof (rule ccontr)
    assume "cmp x y \<noteq> 0"
    with le have "cmp x y < 0" by simp
    then have "sgn (cmp x y) = - 1" by simp
    with consistent_sgn [OF c, of x y] have "sgn (cmp y x) = 1" by linarith
    then have "0 < cmp y x" by (simp only: sgn_1_pos)
    with ge show False by simp
  qed
qed

lemma set_insertBy: "set (insertBy cmp x ys) = insert x (set ys)"
  by (induction ys) auto

lemma mset_insertBy: "mset (insertBy cmp x ys) = add_mset x (mset ys)"
  by (induction ys) auto

lemma mset_sortBy: "mset (sortBy cmp xs) = mset xs"
  by (induction xs) (simp_all add: mset_insertBy)

lemma sorted_insertBy:
  assumes c: "consistent cmp"
  shows "sorted_wrt (\<lambda>a b. cmp a b \<le> 0) ys \<Longrightarrow> sorted_wrt (\<lambda>a b. cmp a b \<le> 0) (insertBy cmp x ys)"
proof (induction ys)
  case Nil
  show ?case by simp
next
  case (Cons y ys)
  show ?case
  proof (cases "cmp x y \<le> 0")
    case True
    have "cmp x z \<le> 0" if "z \<in> set ys" for z
    proof -
      from Cons.prems that have "cmp y z \<le> 0" by simp
      with c True show ?thesis by (rule consistent_trans)
    qed
    with True Cons.prems show ?thesis by simp
  next
    case False
    then have "0 < cmp x y" by simp
    with c have "cmp y x \<le> 0"
      by (auto dest: consistent_flip)
    with False Cons show ?thesis
      by (auto simp: set_insertBy)
  qed
qed

lemma sorted_sortBy:
  "consistent cmp \<Longrightarrow> sorted_wrt (\<lambda>a b. cmp a b \<le> 0) (sortBy cmp xs)"
  by (induction xs) (simp_all add: sorted_insertBy)

lemma filter_insertBy:
  assumes c: "consistent cmp"
  shows "filter (\<lambda>b. cmp a b = 0) (insertBy cmp x ys) =
         (if cmp a x = 0 then x # filter (\<lambda>b. cmp a b = 0) ys else filter (\<lambda>b. cmp a b = 0) ys)"
proof (induction ys)
  case Nil
  show ?case by simp
next
  case (Cons y ys)
  show ?case
  proof (cases "cmp x y \<le> 0")
    case True
    then show ?thesis by simp
  next
    case False
    have "\<not> (cmp a x = 0 \<and> cmp a y = 0)"
    proof
      assume "cmp a x = 0 \<and> cmp a y = 0"
      with c have "cmp x y = 0" by (auto intro: consistent_equiv)
      with False show False by simp
    qed
    with False Cons.IH show ?thesis by auto
  qed
qed

lemma filter_sortBy:
  "consistent cmp \<Longrightarrow>
     filter (\<lambda>b. cmp a b = 0) (sortBy cmp xs) = filter (\<lambda>b. cmp a b = 0) xs"
  by (induction xs) (simp_all add: filter_insertBy)

lemma consistent_compareProjects:
  assumes c: "consistent lc"
  shows "consistent (compareProjects lc)"
proof -
  have r: "compareProjects lc x x = 0" for x
    using c by (simp add: compareProjects_def consistent_refl)
  have s: "sgn (compareProjects lc x y) = - sgn (compareProjects lc y x)" for x y
    using consistent_sgn [OF c, of "date y" "date x"] consistent_sgn [OF c, of "title x" "title y"]
    by (cases "date x = []"; cases "date y = []") (simp_all add: compareProjects_def)
  have t: "compareProjects lc x z \<le> 0"
    if "compareProjects lc x y \<le> 0" and "compareProjects lc y z \<le> 0" for x y z
  proof (cases "date x = []"; cases "date y = []"; cases "date z = []")
    assume "date x = []" "date y = []" "date z = []"
    with that c show ?thesis
      by (auto simp: compareProjects_def intro: consistent_trans)
  next
    assume "date x \<noteq> []" "date y \<noteq> []" "date z \<noteq> []"
    with that c show ?thesis
      by (auto simp: compareProjects_def intro: consistent_trans)
  qed (use that in \<open>auto simp: compareProjects_def\<close>)
  from r s t show ?thesis
    unfolding consistent_def by blast
qed

lemma codeUnitCompare_refl: "codeUnitCompare x x = 0"
  by (induction x) simp_all

lemma codeUnitCompare_sgn: "sgn (codeUnitCompare x y) = - sgn (codeUnitCompare y x)"
  by (induction x y rule: codeUnitCompare.induct) auto

lemma codeUnitCompare_trans:
  "codeUnitCompare x y \<le> 0 \<Longrightarrow> codeUnitCompare y z \<le> 0 \<Longrightarrow> codeUnitCompare x z \<le> 0"
proof (induction x y arbitrary: z rule: codeUnitCompare.induct)
  case 1
  then show ?case by simp
next
  case (2 y ys)
  then show ?case by (cases z) simp_all
next
  case (3 x xs)
  then show ?case by simp
next
  case (4 x xs y ys)
  show ?case
  proof (cases z)
    case Nil
    with "4.prems" show ?thesis by simp
  next
    case (Cons c cs)
    show ?thesis
    proof (cases "(of_char x :: nat) < of_char y")
      case True
      with "4.prems" Cons show ?thesis
        by (auto split: if_splits)
    next
      case False
      with "4.prems" have eq: "(of_char x :: nat) = of_char y" and xy: "codeUnitCompare xs ys \<le> 0"
        by (auto split: if_splits)
      show ?thesis
      proof (cases "(of_char y :: nat) < of_char c")
        case True
        with eq Cons show ?thesis by simp
      next
        case False
        with "4.prems" Cons have eq2: "(of_char y :: nat) = of_char c"
          and yz: "codeUnitCompare ys cs \<le> 0"
          by (auto split: if_splits)
        from "4.IH" [of cs] eq xy yz have "codeUnitCompare xs cs \<le> 0" by simp
        with eq eq2 Cons show ?thesis by simp
      qed
    qed
  qed
qed

lemma consistent_codeUnitCompare: "consistent codeUnitCompare"
  unfolding consistent_def
  using codeUnitCompare_refl codeUnitCompare_sgn codeUnitCompare_trans by blast

section \<open>Sort: the order of the list\<close>

text \<open>
  Claim C1, as the specification words it, fails: two records with the same non-empty date
  compare equal, whatever their titles, and the stable sort leaves them in load order. The
  title is consulted only when both dates are empty.
\<close>

theorem sortProjects_spec_counterexample:
  "sortProjects codeUnitCompare
     [sample ''B'' [] [] ''2024-01-01'', sample ''A'' [] [] ''2024-01-01'']
     = [sample ''B'' [] [] ''2024-01-01'', sample ''A'' [] [] ''2024-01-01''] \<and>
   \<not> specOrder codeUnitCompare (sample ''B'' [] [] ''2024-01-01'') (sample ''A'' [] [] ''2024-01-01'')"
  by code_simp

text \<open>
  Claim C1, amended. For a collation \<^verbatim>\<open>localeCompare\<close> that is a consistent comparator,
  the sorted list is a permutation of the loaded one in which, for any record and any
  later one: an undated record is followed only by undated records; of two dated records
  the later one's date does not exceed the earlier one's under the collation (date
  descending); of two undated records the earlier one's title does not exceed the later
  one's (title ascending). Records that the comparator ranks equal keep their load order;
  in particular records that share a non-empty date do, whatever their titles.
\<close>

theorem sortProjects_order:
  "consistent localeCompare \<Longrightarrow>
     mset (sortProjects localeCompare ps) = mset ps \<and>
     (\<forall>i j. i < j \<and> j < length (sortProjects localeCompare ps) \<longrightarrow>
        (let a = sortProjects localeCompare ps ! i; b = sortProjects localeCompare ps ! j
         in (date a = [] \<longrightarrow> date b = []) \<and>
            (date a \<noteq> [] \<and> date b \<noteq> [] \<longrightarrow> localeCompare (date b) (date a) \<le> 0) \<and>
            (date a = [] \<and> date b = [] \<longrightarrow> localeCompare (title a) (title b) \<le> 0))) \<and>
     (\<forall>a. filter (\<lambda>b. compareProjects localeCompare a b = 0) (sortProjects localeCompare ps) =
          filter (\<lambda>b. compareProjects localeCompare a b = 0) ps) \<and>
     (\<forall>d. d \<noteq> [] \<longrightarrow>
          filter (\<lambda>b. date b = d) (sortProjects localeCompare ps) = filter (\<lambda>b. date b = d) ps)"
proof -
  assume lc: "consistent localeCompare"
  let ?cmp = "compareProjects localeCompare"
  let ?out = "sortProjects localeCompare ps"
  from lc have c: "consistent ?cmp" by (rule consistent_compareProjects)
  have perm: "mset ?out = mset ps"
    by (simp add: sortProjects_def mset_sortBy)
  from c have srt: "sorted_wrt (\<lambda>a b. ?cmp a b \<le> 0) ?out"
    unfolding sortProjects_def by (rule sorted_sortBy)
  have pair: "(date (?out ! i) = [] \<longrightarrow> date (?out ! j) = []) \<and>
      (date (?out ! i) \<noteq> [] \<and> date (?out ! j) \<noteq> [] \<longrightarrow>
         localeCompare (date (?out ! j)) (date (?out ! i)) \<le> 0) \<and>
      (date (?out ! i) = [] \<and> date (?out ! j) = [] \<longrightarrow>
         localeCompare (title (?out ! i)) (title (?out ! j)) \<le> 0)"
    if "i < j" and "j < length ?out" for i j
  proof -
    from srt that have "?cmp (?out ! i) (?out ! j) \<le> 0"
      by (simp add: sorted_wrt_iff_nth_less)
    then show ?thesis
      by (auto simp: compareProjects_def split: if_splits)
  qed
  from c have stab: "filter (\<lambda>b. ?cmp a b = 0) ?out = filter (\<lambda>b. ?cmp a b = 0) ps" for a
    unfolding sortProjects_def by (rule filter_sortBy)
  have same: "filter (\<lambda>b. date b = d) ?out = filter (\<lambda>b. date b = d) ps" if d: "d \<noteq> []" for d
  proof -
    let ?a = "sample [] [] [] d"
    have sub: "date b = d \<Longrightarrow> ?cmp ?a b = 0" for b
      using d lc by (simp add: compareProjects_def sample_def consistent_refl)
    then have "filter (\<lambda>b. date b = d) xs = filter (\<lambda>b. date b = d) (filter (\<lambda>b. ?cmp ?a b = 0) xs)"
      for xs :: "project list"
      by (auto intro: filter_cong)
    from this [of ?out] this [of ps] stab [of ?a] show ?thesis by simp
  qed
  from perm pair stab same show ?thesis
    unfolding Let_def by blast
qed

theorem sortProjects_order_witness:
  "sortProjects codeUnitCompare
     [sample ''C'' [] [] [], sample ''A'' [] [] ''2024-01-01'', sample ''B'' [] [] ''2024-02-01'',
      sample ''Z'' [] [] ''2024-01-01'', sample ''Aa'' [] [] []]
     = [sample ''B'' [] [] ''2024-02-01'', sample ''A'' [] [] ''2024-01-01'',
        sample ''Z'' [] [] ''2024-01-01'', sample ''Aa'' [] [] [], sample ''C'' [] [] []]"
proof -
  have run: "sortProjects codeUnitCompare
     [sample ''C'' [] [] [], sample ''A'' [] [] ''2024-01-01'', sample ''B'' [] [] ''2024-02-01'',
      sample ''Z'' [] [] ''2024-01-01'', sample ''Aa'' [] [] []]
     = [sample ''B'' [] [] ''2024-02-01'', sample ''A'' [] [] ''2024-01-01'',
        sample ''Z'' [] [] ''2024-01-01'', sample ''Aa'' [] [] [], sample ''C'' [] [] []]"
    by code_simp
  show ?thesis
    using run sortProjects_order [OF consistent_codeUnitCompare]
    by - assumption
qed

end
